theory Spec2Isabelle
  imports Complex_Main "HOL-Library.AList" "HOL-Library.Char_ord" "HOL-Library.List_Lexorder"
begin

section \<open>Cells: the values a table holds\<close>

text \<open>
  Every table of \<^verbatim>\<open>src/backtester.py\<close> is a pandas frame of float64 cells. A cell is
  a finite number, one of the two infinities, or NaN (the missing-value marker of pandas).
  Finite numbers are exact reals: the operations below do not round (rounding is added to
  them in the next section, for the one method where the result depends on it), and zero
  has no sign (every divisor the program builds is an absolute value, a sum of absolute
  values or a positive literal, so a zero divisor is always +0 and the quotient takes the
  sign of the numerator). The arithmetic below is IEEE-754 arithmetic on these four kinds
  of value.
\<close>

datatype cell = Num real | PInf | NInf | NaN

fun cneg :: "cell \<Rightarrow> cell" where
  "cneg (Num a) = Num (- a)"
| "cneg PInf = NInf"
| "cneg NInf = PInf"
| "cneg NaN = NaN"

fun cadd :: "cell \<Rightarrow> cell \<Rightarrow> cell" where
  "cadd (Num a) (Num b) = Num (a + b)"
| "cadd NaN _ = NaN"
| "cadd _ NaN = NaN"
| "cadd PInf NInf = NaN"
| "cadd NInf PInf = NaN"
| "cadd PInf _ = PInf"
| "cadd _ PInf = PInf"
| "cadd NInf _ = NInf"
| "cadd _ NInf = NInf"

definition csub :: "cell \<Rightarrow> cell \<Rightarrow> cell" where
  "csub x y = cadd x (cneg y)"

text \<open>The infinity with the sign of a nonzero real.\<close>

definition inf_of_sign :: "real \<Rightarrow> cell" where
  "inf_of_sign a = (if a = 0 then NaN else if 0 < a then PInf else NInf)"

fun cmul :: "cell \<Rightarrow> cell \<Rightarrow> cell" where
  "cmul (Num a) (Num b) = Num (a * b)"
| "cmul NaN _ = NaN"
| "cmul _ NaN = NaN"
| "cmul PInf (Num b) = inf_of_sign b"
| "cmul NInf (Num b) = inf_of_sign (- b)"
| "cmul (Num a) PInf = inf_of_sign a"
| "cmul (Num a) NInf = inf_of_sign (- a)"
| "cmul PInf PInf = PInf"
| "cmul NInf NInf = PInf"
| "cmul PInf NInf = NInf"
| "cmul NInf PInf = NInf"

fun cdiv :: "cell \<Rightarrow> cell \<Rightarrow> cell" where
  "cdiv (Num a) (Num b) = (if b = 0 then inf_of_sign a else Num (a / b))"
| "cdiv NaN _ = NaN"
| "cdiv _ NaN = NaN"
| "cdiv (Num a) PInf = Num 0"
| "cdiv (Num a) NInf = Num 0"
| "cdiv PInf (Num b) = (if 0 \<le> b then PInf else NInf)"
| "cdiv NInf (Num b) = (if 0 \<le> b then NInf else PInf)"
| "cdiv PInf PInf = NaN"
| "cdiv PInf NInf = NaN"
| "cdiv NInf PInf = NaN"
| "cdiv NInf NInf = NaN"

fun cabs :: "cell \<Rightarrow> cell" where
  "cabs (Num a) = Num \<bar>a\<bar>"
| "cabs PInf = PInf"
| "cabs NInf = PInf"
| "cabs NaN = NaN"

fun csqrt :: "cell \<Rightarrow> cell" where
  "csqrt (Num a) = (if a < 0 then NaN else Num (sqrt a))"
| "csqrt PInf = PInf"
| "csqrt NInf = NaN"
| "csqrt NaN = NaN"

text \<open>Comparisons: every ordered comparison with NaN is false, and NaN differs from
  everything, itself included.\<close>

fun clt :: "cell \<Rightarrow> cell \<Rightarrow> bool" where
  "clt (Num a) (Num b) = (a < b)"
| "clt NaN _ = False"
| "clt _ NaN = False"
| "clt NInf NInf = False"
| "clt NInf _ = True"
| "clt _ NInf = False"
| "clt PInf _ = False"
| "clt _ PInf = True"

definition cgt :: "cell \<Rightarrow> cell \<Rightarrow> bool" where
  "cgt x y = clt y x"

definition cge :: "cell \<Rightarrow> cell \<Rightarrow> bool" where
  "cge x y = (x \<noteq> NaN \<and> y \<noteq> NaN \<and> \<not> clt x y)"

definition cne :: "cell \<Rightarrow> cell \<Rightarrow> bool" where
  "cne x y = (x = NaN \<or> y = NaN \<or> x \<noteq> y)"

text \<open>One step of a sum that skips missing values (pandas \<^verbatim>\<open>skipna=True\<close>).\<close>

definition nanadd :: "cell \<Rightarrow> cell \<Rightarrow> cell" where
  "nanadd acc x = (if x = NaN then acc else cadd acc x)"

definition nansum :: "cell list \<Rightarrow> cell" where
  "nansum xs = foldl nanadd (Num 0) xs"

section \<open>Rounding to float64\<close>

text \<open>
  A float64 operation on finite numbers gives the exact result rounded to the nearest number
  with a significand of 53 bits, a tie going to the even significand. \<open>round_half_even\<close>
  rounds a real to an integer that way, and \<open>round_double\<close> scales a number by the power
  of two that brings its significand to 53 bits, rounds, and scales back. The exponent is
  not bounded: overflow to an infinity and the subnormal numbers below \<open>2 ^ -1022\<close> are
  left out.
\<close>

definition round_half_even :: "real \<Rightarrow> int" where
  "round_half_even y =
     (let f = \<lfloor>y\<rfloor>; r = y - of_int f
      in if r < 1 / 2 then f else if 1 / 2 < r then f + 1 else if even f then f else f + 1)"

definition round_double :: "real \<Rightarrow> real" where
  "round_double x =
     (if x = 0 then 0
      else (let e = \<lfloor>log 2 \<bar>x\<bar>\<rfloor> - 52
            in of_int (round_half_even (x / 2 powr e)) * 2 powr e))"

text \<open>The result of a cell operation in float64: a finite result is rounded by \<open>rnd\<close>,
  the identity for exact arithmetic and \<open>round_double\<close> for float64.\<close>

definition rounded :: "(real \<Rightarrow> real) \<Rightarrow> cell \<Rightarrow> cell" where
  "rounded rnd c = (case c of Num x \<Rightarrow> Num (rnd x) | _ \<Rightarrow> c)"

text \<open>The sum that skips missing values, every addition rounded by \<open>rnd\<close>.\<close>

definition nansum_rounded :: "(real \<Rightarrow> real) \<Rightarrow> cell list \<Rightarrow> cell" where
  "nansum_rounded rnd xs = foldl (\<lambda>acc x. rounded rnd (nanadd acc x)) (Num 0) xs"


section \<open>Frames and series\<close>

text \<open>
  A frame has a time axis and named columns, in order. All tables of one backtest share
  the time axis of the spot fixes, so a label of the axis is its position, and reading a
  series at a position it does not have gives NaN, as aligning on the axis does.
\<close>

datatype timestamp = Timestamp (year: int) (month: nat) (day: nat)

record frame =
  index :: "timestamp list"
  columns :: "(string \<times> cell list) list"

definition at_row :: "cell list \<Rightarrow> nat \<Rightarrow> cell" where
  "at_row xs t = (if t < length xs then xs ! t else NaN)"

definition nrows :: "frame \<Rightarrow> nat" where
  "nrows f = length (index f)"

definition series_map :: "nat \<Rightarrow> (cell \<Rightarrow> cell) \<Rightarrow> cell list \<Rightarrow> cell list" where
  "series_map n g xs = map (\<lambda>t. g (at_row xs t)) [0..<n]"

definition series_binop :: "nat \<Rightarrow> (cell \<Rightarrow> cell \<Rightarrow> cell) \<Rightarrow> cell list \<Rightarrow> cell list \<Rightarrow> cell list" where
  "series_binop n g xs ys = map (\<lambda>t. g (at_row xs t) (at_row ys t)) [0..<n]"

text \<open>\<^verbatim>\<open>shift(1)\<close>: every value moves one row down, the first row is missing.\<close>

definition shift1 :: "nat \<Rightarrow> cell list \<Rightarrow> cell list" where
  "shift1 n xs = map (\<lambda>t. if t = 0 then NaN else at_row xs (t - 1)) [0..<n]"

text \<open>\<^verbatim>\<open>diff()\<close>: the change from the previous row, missing in the first row.\<close>

definition diff1 :: "nat \<Rightarrow> cell list \<Rightarrow> cell list" where
  "diff1 n xs = series_binop n csub xs (shift1 n xs)"

text \<open>Forward fill: a missing value takes the last value seen before it.\<close>

fun ffill_from :: "cell \<Rightarrow> cell list \<Rightarrow> cell list" where
  "ffill_from prev [] = []"
| "ffill_from prev (x # xs) =
     (if x = NaN then prev # ffill_from prev xs else x # ffill_from x xs)"

definition ffill :: "cell list \<Rightarrow> cell list" where
  "ffill xs = ffill_from NaN xs"

text \<open>
  \<^verbatim>\<open>pct_change()\<close> with its defaults (one period, \<^verbatim>\<open>fill_method='pad'\<close> in every
  pandas release that accepts the \<^verbatim>\<open>resample("Y")\<close> of \<^verbatim>\<open>compute_stats\<close>): missing
  prices are forward filled, then each price is divided by the previous one, minus 1.
\<close>

definition pct_change :: "nat \<Rightarrow> cell list \<Rightarrow> cell list" where
  "pct_change n xs =
     (let d = ffill xs
      in series_map n (\<lambda>q. csub q (Num 1)) (series_binop n cdiv d (shift1 n d)))"

definition column :: "frame \<Rightarrow> string \<Rightarrow> cell list option" where
  "column f c = map_of (columns f) c"

definition column_names :: "frame \<Rightarrow> string list" where
  "column_names f = map fst (columns f)"

definition frame_map :: "(cell list \<Rightarrow> cell list) \<Rightarrow> frame \<Rightarrow> frame" where
  "frame_map g f = f\<lparr>columns := map (\<lambda>(c, xs). (c, g xs)) (columns f)\<rparr>"

text \<open>\<^verbatim>\<open>reindex(columns=cs)\<close>: the columns named, in that order; one the frame does
  not have is all missing.\<close>

definition reindex_columns :: "string list \<Rightarrow> frame \<Rightarrow> frame" where
  "reindex_columns cs f =
     f\<lparr>columns := map (\<lambda>c. (c, case column f c of Some xs \<Rightarrow> xs
                                  | None \<Rightarrow> replicate (nrows f) NaN)) cs\<rparr>"

text \<open>\<^verbatim>\<open>left.align(right, join="outer", axis=1)\<close>: both frames on the union of
  their column names (sorted, unless the names already agree).\<close>

definition align_columns :: "frame \<Rightarrow> frame \<Rightarrow> frame \<times> frame" where
  "align_columns l r =
     (if column_names l = column_names r then (l, r)
      else (let u = sort (remdups (column_names l @ column_names r))
            in (reindex_columns u l, reindex_columns u r)))"

text \<open>A cell-wise operation of two frames whose columns are aligned.\<close>

definition frame_binop :: "(cell \<Rightarrow> cell \<Rightarrow> cell) \<Rightarrow> frame \<Rightarrow> frame \<Rightarrow> frame" where
  "frame_binop g l r =
     l\<lparr>columns := map (\<lambda>(c, xs). (c, series_binop (nrows l) g xs
                          (case column r c of Some ys \<Rightarrow> ys | None \<Rightarrow> []))) (columns l)\<rparr>"

text \<open>\<^verbatim>\<open>sum(axis=1)\<close>: per row, the sum of the cells that are not missing; 0 when
  all are.\<close>

definition sum_axis1 :: "frame \<Rightarrow> cell list" where
  "sum_axis1 f = map (\<lambda>t. nansum (map (\<lambda>(c, xs). at_row xs t) (columns f))) [0..<nrows f]"

text \<open>\<^verbatim>\<open>sum(axis=1)\<close> with every addition rounded by \<open>rnd\<close>.\<close>

definition sum_axis1_rounded :: "(real \<Rightarrow> real) \<Rightarrow> frame \<Rightarrow> cell list" where
  "sum_axis1_rounded rnd f =
     map (\<lambda>t. nansum_rounded rnd (map (\<lambda>(c, xs). at_row xs t) (columns f))) [0..<nrows f]"

text \<open>\<^verbatim>\<open>f[c] = xs\<close>: replaces the column named \<open>c\<close>, or appends it.\<close>

definition set_column :: "string \<Rightarrow> cell list \<Rightarrow> frame \<Rightarrow> frame" where
  "set_column c xs f = f\<lparr>columns := AList.update c xs (columns f)\<rparr>"

section \<open>The backtest\<close>

text \<open>
  Modelled from the spec: the enumeration \<^verbatim>\<open>Fixes\<close> of the fixing sessions, which the
  source uses (\<^verbatim>\<open>Fixes.LON\<close>, \<^verbatim>\<open>fix: Fixes\<close>) and does not declare. The spec names
  two sessions, "LON" and "NY"; the source treats every session that is not LON as NY.
\<close>

datatype Fixes = LON | NY

text \<open>The exceptions the modelled code can raise: a column that is not there, an attribute
  that is not there, a negative window or a table of the wrong shape.\<close>

datatype error = KeyError | AttributeError | ValueError

text \<open>
  The attributes of a \<^verbatim>\<open>Backtest\<close> object. \<open>pnl\<close> exists only once
  \<^verbatim>\<open>compute_pnl\<close> has run; \<open>spreads\<close> is read by
  \<^verbatim>\<open>compute_transaction_costs\<close> as \<^verbatim>\<open>self.spreads\<close> and is assigned by no method
  of the class: \<open>None\<close> is an attribute that does not exist. A spread table is the one-row
  frame of the module (\<^verbatim>\<open>orient="index"\<close>), kept as its row.
\<close>

record Backtest =
  fx_lon_fixes :: frame
  fx_ny_fixes :: frame
  swaps_lon_fixes :: frame
  swaps_ny_fixes :: frame
  ma_window :: int
  currencies :: "string list"
  countries :: "string list"
  positions :: frame
  signals_lon :: frame
  signals_ny :: frame
  pnl :: "frame option"
  spreads :: "(string \<times> cell) list option"

definition zeros :: "timestamp list \<Rightarrow> string list \<Rightarrow> frame" where
  "zeros idx cs = \<lparr>index = idx, columns = map (\<lambda>c. (c, replicate (length idx) (Num 0))) cs\<rparr>"

text \<open>\<^verbatim>\<open>Backtest.__init__\<close> (the logging level is left out).\<close>

definition init :: "frame \<Rightarrow> frame \<Rightarrow> frame \<Rightarrow> frame \<Rightarrow> int \<Rightarrow> Backtest" where
  "init fx_lon fx_ny swaps_lon swaps_ny w =
     (let curs = column_names fx_lon
      in \<lparr>fx_lon_fixes = fx_lon, fx_ny_fixes = fx_ny,
          swaps_lon_fixes = swaps_lon, swaps_ny_fixes = swaps_ny,
          ma_window = w,
          currencies = curs,
          countries = map (take 3) curs,
          positions = zeros (index fx_lon) curs,
          signals_lon = zeros (index fx_lon) curs,
          signals_ny = zeros (index fx_lon) curs,
          pnl = None,
          spreads = None\<rparr>)"

subsection \<open>compute_pnl\<close>

text \<open>\<^verbatim>\<open>returns = self.fx_lon_fixes.pct_change()\<close>\<close>

definition returns_table :: "frame \<Rightarrow> frame" where
  "returns_table fx = frame_map (pct_change (nrows fx)) fx"

text \<open>Lines 146 to 150: \<^verbatim>\<open>pnl = returns * positions.shift(1)\<close> on the aligned columns,
  before the two summary columns are added.\<close>

definition instrument_pnl :: "frame \<Rightarrow> frame \<Rightarrow> frame" where
  "instrument_pnl pos fx =
     (let returns = returns_table fx;
          (positions', returns') = align_columns pos returns
      in frame_binop cmul returns' (frame_map (shift1 (nrows positions')) positions'))"

text \<open>Lines 151 and 152: the row sums and their share of the literal 1,000,000.\<close>

definition pnl_table :: "frame \<Rightarrow> frame \<Rightarrow> frame" where
  "pnl_table pos fx =
     (let p = instrument_pnl pos fx;
          p1 = set_column ''total'' (sum_axis1 p) p;
          tot = (case column p1 ''total'' of Some xs \<Rightarrow> xs | None \<Rightarrow> [])
      in set_column ''total_pct'' (series_map (nrows p1) (\<lambda>x. cdiv x (Num 1000000)) tot) p1)"

definition compute_pnl :: "Backtest \<Rightarrow> Backtest" where
  "compute_pnl b = b\<lparr>pnl := Some (pnl_table (positions b) (fx_lon_fixes b))\<rparr>"

subsection \<open>compute_signals\<close>

text \<open>\<^verbatim>\<open>combinations(countries, 2)\<close>, which is also the order of the two nested loops
  (\<^verbatim>\<open>for i, country1 in enumerate(countries): for country2 in countries[i + 1:]\<close>).\<close>

fun combinations2 :: "'a list \<Rightarrow> ('a \<times> 'a) list" where
  "combinations2 [] = []"
| "combinations2 (x # xs) = map (Pair x) xs @ combinations2 xs"

text \<open>
  \<^verbatim>\<open>rolling(w).mean()\<close>: the mean of the last \<open>w\<close> rows, missing until \<open>w\<close> rows
  are there and whenever one of them is missing (\<^verbatim>\<open>min_periods\<close> is the window). Each
  window is summed on its own.
\<close>

definition rolling_mean :: "nat \<Rightarrow> nat \<Rightarrow> cell list \<Rightarrow> cell list" where
  "rolling_mean n w xs =
     map (\<lambda>t. if w = 0 \<or> t + 1 < w then NaN
              else (let win = map (at_row xs) [t + 1 - w..<t + 1]
                    in if NaN \<in> set win then NaN
                       else cdiv (foldl cadd (Num 0) win) (Num (real w)))) [0..<n]"

text \<open>Lines 82 to 87: the raw subsignal of one pair from its difference series.\<close>

definition subsignal_of_diff :: "nat \<Rightarrow> nat \<Rightarrow> cell list \<Rightarrow> cell list" where
  "subsignal_of_diff n w diff =
     (let avg = rolling_mean n w diff
      in series_binop n cdiv (series_binop n csub diff avg) (series_map n cabs avg))"

definition subsignal_column :: "int \<Rightarrow> frame \<Rightarrow> string \<Rightarrow> string \<Rightarrow> error + cell list" where
  "subsignal_column w swaps_data country1 country2 =
     (case column swaps_data (country1 @ ''USD'') of
        None \<Rightarrow> Inl KeyError
      | Some s1 \<Rightarrow>
          (case column swaps_data (country2 @ ''USD'') of
             None \<Rightarrow> Inl KeyError
           | Some s2 \<Rightarrow>
               if w < 0 then Inl ValueError
               else Inr (subsignal_of_diff (nrows swaps_data) (nat w)
                           (series_binop (nrows swaps_data) csub s1 s2))))"

text \<open>The loop of lines 75 to 92. The frame \<^verbatim>\<open>subsignals\<close> is allocated with one
  column per pair name and each column is then assigned once, in the same order.\<close>

fun subsignal_columns ::
  "int \<Rightarrow> frame \<Rightarrow> (string \<times> string) list \<Rightarrow> error + (string \<times> cell list) list" where
  "subsignal_columns w swaps_data [] = Inr []"
| "subsignal_columns w swaps_data ((country1, country2) # ps) =
     (case subsignal_column w swaps_data country1 country2 of
        Inl e \<Rightarrow> Inl e
      | Inr subsignals_col \<Rightarrow>
          (case subsignal_columns w swaps_data ps of
             Inl e \<Rightarrow> Inl e
           | Inr cols \<Rightarrow> Inr ((country1 @ country2, subsignals_col) # cols)))"

text \<open>
  \<^verbatim>\<open>quantile(axis=1, q=0.5)\<close> of one row: missing values are dropped, the rest sorted,
  and the value at the virtual index \<open>(n - 1) / 2\<close> is interpolated linearly between its two
  neighbours, in float arithmetic.
\<close>

fun insert_cell :: "cell \<Rightarrow> cell list \<Rightarrow> cell list" where
  "insert_cell x [] = [x]"
| "insert_cell x (y # ys) = (if clt y x then y # insert_cell x ys else x # y # ys)"

definition sort_cells :: "cell list \<Rightarrow> cell list" where
  "sort_cells xs = foldr insert_cell xs []"

definition lerp :: "cell \<Rightarrow> cell \<Rightarrow> real \<Rightarrow> cell" where
  "lerp a b g =
     (let d = csub b a
      in if 1 / 2 \<le> g then csub b (cmul d (Num (1 - g))) else cadd a (cmul d (Num g)))"

definition median_skipna :: "cell list \<Rightarrow> cell" where
  "median_skipna xs =
     (let vs = sort_cells (filter (\<lambda>x. x \<noteq> NaN) xs); n = length vs
      in if n = 0 then NaN
         else (let lo = (n - 1) div 2; hi = min (lo + 1) (n - 1)
               in lerp (vs ! lo) (vs ! hi) (if even (n - 1) then 0 else 1 / 2)))"

definition threshold_column :: "nat \<Rightarrow> (string \<times> cell list) list \<Rightarrow> cell list" where
  "threshold_column n subsignals =
     map (\<lambda>t. median_skipna (map (\<lambda>(c, xs). cabs (at_row xs t)) subsignals)) [0..<n]"

text \<open>Lines 113 to 115, on one cell: the three masked assignments, one after the other.\<close>

definition discretize :: "cell \<Rightarrow> cell \<Rightarrow> cell" where
  "discretize thr x =
     (let x1 = (if cgt (cabs x) thr \<and> cge x (Num 0) then Num 1 else x);
          x2 = (if cgt (cabs x1) thr \<and> clt x1 (Num 0) then Num (- 1) else x1)
      in if cne (cabs x2) (Num 1) then Num 0 else x2)"

definition discretize_column :: "nat \<Rightarrow> cell list \<Rightarrow> cell list \<Rightarrow> cell list" where
  "discretize_column n thresholds col = series_binop n discretize thresholds col"

text \<open>The loop of lines 104 to 118 over the pair columns: the pair's discretized column
  is added to the signal of its first country and subtracted from that of its second.\<close>

fun accumulate ::
  "nat \<Rightarrow> cell list \<Rightarrow> (string \<times> cell list) list \<Rightarrow> frame \<Rightarrow> error + frame" where
  "accumulate n thresholds [] signals = Inr signals"
| "accumulate n thresholds ((col, xs) # rest) signals =
     (let country1 = take 3 col; country2 = drop 3 col;
          col_data = discretize_column n thresholds xs
      in case column signals (country1 @ ''USD'') of
           None \<Rightarrow> Inl KeyError
         | Some s1 \<Rightarrow>
             (let signals1 = set_column (country1 @ ''USD'')
                               (series_binop (nrows signals) cadd s1 col_data) signals
              in case column signals1 (country2 @ ''USD'') of
                   None \<Rightarrow> Inl KeyError
                 | Some s2 \<Rightarrow>
                     accumulate n thresholds rest
                       (set_column (country2 @ ''USD'')
                          (series_binop (nrows signals) csub s2 col_data) signals1)))"

definition swaps_of :: "Fixes \<Rightarrow> Backtest \<Rightarrow> frame" where
  "swaps_of fix b = (if fix = LON then swaps_lon_fixes b else swaps_ny_fixes b)"

definition signals_of :: "Fixes \<Rightarrow> Backtest \<Rightarrow> frame" where
  "signals_of fix b = (if fix = LON then signals_lon b else signals_ny b)"

definition set_signals :: "Fixes \<Rightarrow> frame \<Rightarrow> Backtest \<Rightarrow> Backtest" where
  "set_signals fix s b = (if fix = LON then b\<lparr>signals_lon := s\<rparr> else b\<lparr>signals_ny := s\<rparr>)"

definition compute_signals :: "Fixes \<Rightarrow> Backtest \<Rightarrow> error + Backtest" where
  "compute_signals fix b =
     (let swaps_data = swaps_of fix b; signals = signals_of fix b
      in case subsignal_columns (ma_window b) swaps_data (combinations2 (countries b)) of
           Inl e \<Rightarrow> Inl e
         | Inr subsignals \<Rightarrow>
             (case accumulate (nrows swaps_data)
                     (threshold_column (nrows swaps_data) subsignals) subsignals signals of
                Inl e \<Rightarrow> Inl e
              | Inr signals' \<Rightarrow> Inr (set_signals fix signals' b)))"

subsection \<open>compute_positions\<close>

text \<open>\<^verbatim>\<open>self.positions[:] = nominal_exposures\<close> writes the values by position; the
  shapes must agree.\<close>

definition same_shape :: "frame \<Rightarrow> frame \<Rightarrow> bool" where
  "same_shape f g = (nrows f = nrows g \<and> length (columns f) = length (columns g))"

definition compute_positions :: "Fixes \<Rightarrow> cell \<Rightarrow> Backtest \<Rightarrow> error + Backtest" where
  "compute_positions fix target_gross_exposure b =
     (let signal = signals_of fix b; n = nrows signal;
          base_amt = series_map n (cdiv target_gross_exposure)
                       (sum_axis1 (frame_map (series_map n cabs) signal));
          nominal_exposures = frame_map (\<lambda>xs. series_binop n cmul xs base_amt) signal
      in if same_shape nominal_exposures (positions b)
         then Inr (b\<lparr>positions := (positions b)\<lparr>columns :=
                     zip (column_names (positions b)) (map snd (columns nominal_exposures))\<rparr>\<rparr>)
         else Inl ValueError)"

text \<open>
  \<^verbatim>\<open>compute_positions\<close> with the result of every addition, division and multiplication
  rounded by \<open>rnd\<close> (taking the absolute value is exact). With the identity for \<open>rnd\<close>
  this is \<open>compute_positions\<close> above, with \<open>round_double\<close> it is the method in float64.
\<close>

definition compute_positions_rounded ::
  "(real \<Rightarrow> real) \<Rightarrow> Fixes \<Rightarrow> cell \<Rightarrow> Backtest \<Rightarrow> error + Backtest" where
  "compute_positions_rounded rnd fix target_gross_exposure b =
     (let signal = signals_of fix b; n = nrows signal;
          base_amt = series_map n (\<lambda>s. rounded rnd (cdiv target_gross_exposure s))
                       (sum_axis1_rounded rnd (frame_map (series_map n cabs) signal));
          nominal_exposures =
            frame_map (\<lambda>xs. series_binop n (\<lambda>x y. rounded rnd (cmul x y)) xs base_amt) signal
      in if same_shape nominal_exposures (positions b)
         then Inr (b\<lparr>positions := (positions b)\<lparr>columns :=
                     zip (column_names (positions b)) (map snd (columns nominal_exposures))\<rparr>\<rparr>)
         else Inl ValueError)"

subsection \<open>compute_transaction_costs\<close>

definition compute_transaction_costs :: "Backtest \<Rightarrow> error + frame" where
  "compute_transaction_costs b =
     (case spreads b of
        None \<Rightarrow> Inl AttributeError
      | Some sp \<Rightarrow>
          (let n = nrows (positions b);
               position_chg = frame_map (\<lambda>xs. series_map n cabs (diff1 n xs)) (positions b)
           in Inr (position_chg\<lparr>columns := map (\<lambda>(c, xs). (c, series_map n
                          (\<lambda>x. cmul x (case map_of sp c of Some u \<Rightarrow> u | None \<Rightarrow> NaN)) xs))
                        (columns position_chg)\<rparr>)))"

subsection \<open>compute_stats\<close>

definition nanmean :: "cell list \<Rightarrow> cell" where
  "nanmean col =
     (let vs = filter (\<lambda>x. x \<noteq> NaN) col
      in if vs = [] then NaN else cdiv (foldl cadd (Num 0) vs) (Num (real (length vs))))"

text \<open>\<^verbatim>\<open>std()\<close>: the sample standard deviation (\<^verbatim>\<open>ddof=1\<close>) of the values that
  are not missing, missing when fewer than two are there.\<close>

definition nanstd :: "cell list \<Rightarrow> cell" where
  "nanstd col =
     (let vs = filter (\<lambda>x. x \<noteq> NaN) col; k = length vs
      in if k < 2 then NaN
         else (let m = nanmean col
               in csqrt (cdiv (foldl cadd (Num 0) (map (\<lambda>x. cmul (csub x m) (csub x m)) vs))
                              (Num (real (k - 1))))))"

definition compute_return :: "cell list \<Rightarrow> cell" where
  "compute_return col = cmul (nanmean col) (Num (real (length col)))"

definition compute_vol :: "cell list \<Rightarrow> cell" where
  "compute_vol col = cmul (nanstd col) (Num (sqrt (real (length col))))"

text \<open>\<^verbatim>\<open>resample("Y")\<close>: one bin per calendar year from the first to the last year of
  the time axis, with the rows of that year.\<close>

definition years_of :: "timestamp list \<Rightarrow> int list" where
  "years_of idx = (if idx = [] then [] else [Min (set (map year idx))..Max (set (map year idx))])"

definition year_group :: "timestamp list \<Rightarrow> cell list \<Rightarrow> int \<Rightarrow> cell list" where
  "year_group idx xs y = map (at_row xs) (filter (\<lambda>t. year (idx ! t) = y) [0..<length idx])"

record stats_row =
  stat_year :: int
  stat_return :: cell
  stat_vol :: cell
  stat_sharpe :: cell

definition stats_of_year :: "timestamp list \<Rightarrow> cell list \<Rightarrow> int \<Rightarrow> stats_row" where
  "stats_of_year idx total_pct y =
     (let col = year_group idx total_pct y;
          y_return = compute_return col; y_vol = compute_vol col
      in \<lparr>stat_year = y, stat_return = y_return, stat_vol = y_vol,
          stat_sharpe = cdiv y_return y_vol\<rparr>)"

text \<open>The table \<^verbatim>\<open>compute_stats\<close> prints, as its result.\<close>

definition compute_stats :: "Backtest \<Rightarrow> error + stats_row list" where
  "compute_stats b =
     (case pnl b of
        None \<Rightarrow> Inl AttributeError
      | Some p \<Rightarrow>
          (case column p ''total'' of
             None \<Rightarrow> Inl KeyError
           | Some tot \<Rightarrow>
               (case column p ''total_pct'' of
                  None \<Rightarrow> Inl KeyError
                | Some total_pct \<Rightarrow>
                    Inr (map (stats_of_year (index p) total_pct) (years_of (index p))))))"

subsection \<open>run\<close>

definition run :: "Backtest \<Rightarrow> error + Backtest" where
  "run b =
     (case compute_signals LON b of
        Inl e \<Rightarrow> Inl e
      | Inr b1 \<Rightarrow>
          (case compute_positions LON (Num 1000000) b1 of
             Inl e \<Rightarrow> Inl e
           | Inr b2 \<Rightarrow> Inr (compute_pnl b2)))"

subsection \<open>Reading and overwriting one row\<close>

text \<open>The cell of column \<open>c\<close> at row \<open>t\<close>; missing when the frame has no such column
  or row.\<close>

definition cell_of :: "frame \<Rightarrow> string \<Rightarrow> nat \<Rightarrow> cell" where
  "cell_of f c t = (case column f c of Some xs \<Rightarrow> at_row xs t | None \<Rightarrow> NaN)"

definition frame_row :: "frame \<Rightarrow> nat \<Rightarrow> (string \<times> cell) list" where
  "frame_row f t = map (\<lambda>(c, xs). (c, at_row xs t)) (columns f)"

text \<open>The frame with row \<open>t\<close> overwritten: column \<open>c\<close> gets the value \<open>v c\<close> there.\<close>

definition set_row :: "nat \<Rightarrow> (string \<Rightarrow> cell) \<Rightarrow> frame \<Rightarrow> frame" where
  "set_row t v f = f\<lparr>columns := map (\<lambda>(c, xs). (c, xs[t := v c])) (columns f)\<rparr>"

section \<open>A worked example\<close>

text \<open>
  Three instruments over four days across a year end, with a moving-average window of 2.
  The swap rates make the pair EUR/GBP the only one above the median on the second and
  third day, so \<^verbatim>\<open>run()\<close> holds EUR against GBP on those days and has no signal on the
  first and the last day.
\<close>

definition demo_index :: "timestamp list" where
  "demo_index =
     [Timestamp 2023 12 27, Timestamp 2023 12 28, Timestamp 2023 12 29, Timestamp 2024 1 2]"

definition demo_fx :: frame where
  "demo_fx = \<lparr>index = demo_index, columns =
     [(''AUDUSD'', [Num 2, Num 2, Num 2, Num 2]),
      (''EURUSD'', [Num 1, Num 1, Num 2, Num 2]),
      (''GBPUSD'', [Num 4, Num 4, Num 4, Num 2])]\<rparr>"

definition demo_fx_ny :: frame where
  "demo_fx_ny = \<lparr>index = demo_index, columns =
     [(''AUDUSD'', [Num 2, Num 2, Num 2, Num 2]),
      (''EURUSD'', [Num 1, Num 1, Num 1, Num 1]),
      (''GBPUSD'', [Num 4, Num 4, Num 4, Num 4])]\<rparr>"

definition demo_swaps :: frame where
  "demo_swaps = \<lparr>index = demo_index, columns =
     [(''AUDUSD'', [Num 3, Num 4, Num 6, Num 6]),
      (''EURUSD'', [Num 1, Num 1, Num 1, Num 1]),
      (''GBPUSD'', [Num 0, Num (- 1), Num 0, Num 0])]\<rparr>"

definition demo :: Backtest where
  "demo = init demo_fx demo_fx_ny demo_swaps demo_swaps 2"

text \<open>The signals and positions \<^verbatim>\<open>run()\<close> computes for the example (lemmas
  \<open>demo_compute_signals\<close> and \<open>demo_compute_positions\<close> below).\<close>

definition demo_signals :: frame where
  "demo_signals = \<lparr>index = demo_index, columns =
     [(''AUDUSD'', [Num 0, Num 0, Num 0, Num 0]),
      (''EURUSD'', [Num 0, Num 1, Num (- 1), Num 0]),
      (''GBPUSD'', [Num 0, Num (- 1), Num 1, Num 0])]\<rparr>"

definition demo_positions :: frame where
  "demo_positions = \<lparr>index = demo_index, columns =
     [(''AUDUSD'', [NaN, Num 0, Num 0, NaN]),
      (''EURUSD'', [NaN, Num 500000, Num (- 500000), NaN]),
      (''GBPUSD'', [NaN, Num (- 500000), Num 500000, NaN])]\<rparr>"

text \<open>The example after \<^verbatim>\<open>compute_signals\<close> and \<^verbatim>\<open>compute_positions\<close>.\<close>

definition demo_sized :: Backtest where
  "demo_sized = demo\<lparr>positions := demo_positions, signals_lon := demo_signals\<rparr>"

text \<open>The positions of the example for a target gross exposure of 2,000,000.\<close>

definition demo_positions_2m :: frame where
  "demo_positions_2m = \<lparr>index = demo_index, columns =
     [(''AUDUSD'', [NaN, Num 0, Num 0, NaN]),
      (''EURUSD'', [NaN, Num 1000000, Num (- 1000000), NaN]),
      (''GBPUSD'', [NaN, Num (- 1000000), Num 1000000, NaN])]\<rparr>"

text \<open>The worked example with the EUR spot fix of the second day missing.\<close>

definition gap_fx :: frame where
  "gap_fx = \<lparr>index = demo_index, columns =
     [(''AUDUSD'', [Num 2, Num 2, Num 2, Num 2]),
      (''EURUSD'', [Num 1, NaN, Num 2, Num 2]),
      (''GBPUSD'', [Num 4, Num 4, Num 4, Num 2])]\<rparr>"

definition gap_demo :: Backtest where
  "gap_demo = init gap_fx demo_fx_ny demo_swaps demo_swaps 2"

subsection \<open>An example with a zero moving average\<close>






subsection \<open>An example with two instruments\<close>

text \<open>
  Two instruments over two days with a window of 2: the swap rate of AUD steps from 0 to 2
  while that of CAD stays 0, so on the second day the difference is twice its moving
  average and the raw subsignal of the only pair is exactly 1.
\<close>

definition pair_index :: "timestamp list" where
  "pair_index = [Timestamp 2024 1 2, Timestamp 2024 1 3]"

definition pair_swaps :: frame where
  "pair_swaps = \<lparr>index = pair_index, columns =
     [(''AUDUSD'', [Num 0, Num 2]),
      (''CADUSD'', [Num 0, Num 0])]\<rparr>"

definition pair_fx :: frame where
  "pair_fx = \<lparr>index = pair_index, columns =
     [(''AUDUSD'', [Num 1, Num 1]),
      (''CADUSD'', [Num 1, Num 1])]\<rparr>"

definition pair_demo :: Backtest where
  "pair_demo = init pair_fx pair_fx pair_swaps pair_swaps 2"

definition pair_signals :: frame where
  "pair_signals = \<lparr>index = pair_index, columns =
     [(''AUDUSD'', [Num 0, Num 1]),
      (''CADUSD'', [Num 0, Num (- 1)])]\<rparr>"

subsection \<open>An example with one moving swap rate\<close>

text \<open>
  Four instruments over two days with a window of 2, where only the swap rate of AUD
  moves: on the second day the three pairs of AUD are above the median and the other three
  are at zero, so the composite signals are 3 for AUD and -1 for each of the others.
\<close>

definition rise_index :: "timestamp list" where
  "rise_index = [Timestamp 2024 1 2, Timestamp 2024 1 3]"

definition rise_swaps :: frame where
  "rise_swaps = \<lparr>index = rise_index, columns =
     [(''AUDUSD'', [Num 10, Num 20]),
      (''CADUSD'', [Num 1, Num 1]),
      (''EURUSD'', [Num 2, Num 2]),
      (''GBPUSD'', [Num 4, Num 4])]\<rparr>"

definition rise_fx :: frame where
  "rise_fx = \<lparr>index = rise_index, columns =
     [(''AUDUSD'', [Num 1, Num 1]),
      (''CADUSD'', [Num 1, Num 1]),
      (''EURUSD'', [Num 1, Num 1]),
      (''GBPUSD'', [Num 1, Num 1])]\<rparr>"

definition rise_demo :: Backtest where
  "rise_demo = init rise_fx rise_fx rise_swaps rise_swaps 2"

definition rise_signals :: frame where
  "rise_signals = \<lparr>index = rise_index, columns =
     [(''AUDUSD'', [Num 0, Num 3]),
      (''CADUSD'', [Num 0, Num (- 1)]),
      (''EURUSD'', [Num 0, Num (- 1)]),
      (''GBPUSD'', [Num 0, Num (- 1)])]\<rparr>"

section \<open>Notions used in the proofs\<close>

text \<open>The cell-wise sum of two frames whose columns have the same names in the same
  order.\<close>

definition frame_add :: "frame \<Rightarrow> frame \<Rightarrow> frame" where
  "frame_add f g =
     f\<lparr>columns := map (\<lambda>((c, xs), (c', ys)). (c, series_binop (nrows f) cadd xs ys))
                     (zip (columns f) (columns g))\<rparr>"

text \<open>Every column has one cell per row of the time axis.\<close>

definition full_columns :: "frame \<Rightarrow> bool" where
  "full_columns f = list_all (\<lambda>(c, xs). length xs = nrows f) (columns f)"

text \<open>The sum of a row of finite numbers from the left, every addition rounded by
  \<open>rnd\<close>.\<close>

definition rounded_sum :: "(real \<Rightarrow> real) \<Rightarrow> real list \<Rightarrow> real" where
  "rounded_sum rnd xs = foldl (\<lambda>a x. rnd (a + x)) 0 xs"

text \<open>
  The row of positions for a row of finite signals whose gross signal is not zero (lines 125
  and 126 on one row), every operation rounded by \<open>rnd\<close>.
\<close>

definition position_row :: "(real \<Rightarrow> real) \<Rightarrow> real \<Rightarrow> real list \<Rightarrow> real list" where
  "position_row rnd target_gross_exposure signal =
     (let base_amt = rnd (target_gross_exposure / rounded_sum rnd (map abs signal))
      in map (\<lambda>s. rnd (s * base_amt)) signal)"

section \<open>Series and frame lemmas\<close>

lemmas demo_defs = demo_def demo_fx_def demo_fx_ny_def demo_swaps_def demo_index_def init_def zeros_def
  column_names_def demo_signals_def demo_positions_def

lemma at_row_nth: "t < length xs \<Longrightarrow> at_row xs t = xs ! t"
  by (simp add: at_row_def)

lemma ffill_from_length [simp]: "length (ffill_from p xs) = length xs"
  by (induction xs arbitrary: p) auto

lemma ffill_from_nth: "t < length xs \<Longrightarrow> xs ! t \<noteq> NaN \<Longrightarrow> ffill_from p xs ! t = xs ! t"
  by (induction xs arbitrary: p t) (auto simp: nth_Cons split: nat.splits)

lemma at_row_ffill: "at_row xs t \<noteq> NaN \<Longrightarrow> at_row (ffill xs) t = at_row xs t"
  by (auto simp: at_row_def ffill_def ffill_from_nth split: if_splits)

lemma at_row_series_map: "at_row (series_map n g xs) t = (if t < n then g (at_row xs t) else NaN)"
  by (simp add: at_row_def series_map_def)

lemma at_row_series_binop:
  "at_row (series_binop n g xs ys) t = (if t < n then g (at_row xs t) (at_row ys t) else NaN)"
  by (simp add: at_row_def series_binop_def)

lemma at_row_shift1:
  "at_row (shift1 n xs) t = (if t < n \<and> 0 < t then at_row xs (t - 1) else NaN)"
  by (simp add: at_row_def shift1_def)

lemma at_row_pct_change:
  assumes "0 < t" "t < n" "at_row xs t \<noteq> NaN" "at_row xs (t - 1) \<noteq> NaN"
  shows "at_row (pct_change n xs) t = csub (cdiv (at_row xs t) (at_row xs (t - 1))) (Num 1)"
  using assms by (simp add: pct_change_def Let_def at_row_series_map at_row_series_binop at_row_shift1 at_row_ffill)

lemma at_row_list_update: "s \<noteq> t \<Longrightarrow> at_row (xs[t := w]) s = at_row xs s"
  by (simp add: at_row_def)

lemma map_of_map_keyed:
  "map_of (map (\<lambda>(c, xs). (c, h c xs)) al) k = map_option (h k) (map_of al k)"
  by (induction al) auto

lemma column_frame_map: "column (frame_map g f) c = map_option g (column f c)"
  using map_of_map_keyed [of "\<lambda>c. g" "columns f" c] by (simp add: column_def frame_map_def)

lemma column_reindex_columns:
  "column (reindex_columns cs f) c =
     (if c \<in> set cs then Some (case column f c of Some xs \<Rightarrow> xs | None \<Rightarrow> replicate (nrows f) NaN)
      else None)"
  by (induction cs) (auto simp: column_def reindex_columns_def)

lemma column_frame_binop:
  "column (frame_binop g l r) c =
     map_option (\<lambda>xs. series_binop (nrows l) g xs (case column r c of Some ys \<Rightarrow> ys | None \<Rightarrow> []))
       (column l c)"
  using map_of_map_keyed [of "\<lambda>c xs. series_binop (nrows l) g xs (case column r c of Some ys \<Rightarrow> ys | None \<Rightarrow> [])" "columns l" c]
  by (simp add: column_def frame_binop_def)

lemma column_set_column: "column (set_column k v f) c = (if c = k then Some v else column f c)"
  by (simp add: column_def set_column_def update_conv')

lemma column_set_row: "column (set_row t v f) c = map_option (\<lambda>xs. xs[t := v c]) (column f c)"
  using map_of_map_keyed [of "\<lambda>c xs. xs[t := v c]" "columns f" c] by (simp add: column_def set_row_def)

lemma nrows_simps [simp]:
  "nrows (frame_map g f) = nrows f"
  "nrows (reindex_columns cs f) = nrows f"
  "nrows (frame_binop h l r) = nrows l"
  "nrows (set_column k v f) = nrows f"
  "nrows (set_row t w f) = nrows f"
  by (simp_all add: nrows_def frame_map_def reindex_columns_def frame_binop_def set_column_def set_row_def)

lemma nrows_returns_table [simp]: "nrows (returns_table fx) = nrows fx"
  by (simp add: returns_table_def)

lemma column_names_set_row [simp]: "column_names (set_row t v f) = column_names f"
  by (simp add: column_names_def set_row_def case_prod_unfold comp_def)

lemma nrows_align [simp]:
  "nrows (fst (align_columns l r)) = nrows l" "nrows (snd (align_columns l r)) = nrows r"
  by (simp_all add: align_columns_def Let_def)

lemma column_in_names: "column f c = Some xs \<Longrightarrow> c \<in> set (column_names f)"
  by (auto simp: column_def column_names_def dest: map_of_SomeD intro: rev_image_eqI)

lemma column_align_fst:
  "column l c = Some xs \<Longrightarrow> column (fst (align_columns l r)) c = Some xs"
  by (simp add: align_columns_def Let_def column_reindex_columns column_in_names)

lemma column_align_snd:
  "column r c = Some xs \<Longrightarrow> column (snd (align_columns l r)) c = Some xs"
  by (simp add: align_columns_def Let_def column_reindex_columns column_in_names)

lemma align_snd_set_row:
  "snd (align_columns (set_row t v pos) r) = snd (align_columns pos r)"
  by (simp add: align_columns_def Let_def)

lemma at_row_replicate_NaN [simp]: "at_row (replicate n NaN) t = NaN"
  by (simp add: at_row_def)

lemma at_row_Nil [simp]: "at_row [] t = NaN"
  by (simp add: at_row_def)

lemma at_row_list_update_pred: "0 < t \<Longrightarrow> at_row (xs[t := w]) (t - Suc 0) = at_row xs (t - Suc 0)"
  by (simp add: at_row_def)

lemma shifted_row_set_row:
  "at_row (case column (frame_map (shift1 m) (fst (align_columns (set_row t v pos) r))) c of
             Some ys \<Rightarrow> ys | None \<Rightarrow> []) t =
   at_row (case column (frame_map (shift1 m) (fst (align_columns pos r))) c of
             Some ys \<Rightarrow> ys | None \<Rightarrow> []) t"
proof (cases "column pos c")
  case None
  then show ?thesis
    by (simp add: align_columns_def Let_def column_frame_map column_reindex_columns column_set_row)
next
  case (Some xs)
  then show ?thesis
    by (auto simp: align_columns_def Let_def column_frame_map column_reindex_columns column_set_row
        at_row_shift1 at_row_list_update_pred)
qed

lemma frame_row_frame_binop_cong:
  assumes "\<And>c. at_row (case column s' c of Some ys \<Rightarrow> ys | None \<Rightarrow> []) t =
               at_row (case column s c of Some ys \<Rightarrow> ys | None \<Rightarrow> []) t"
  shows "frame_row (frame_binop g r s') t = frame_row (frame_binop g r s) t"
  using assms by (simp add: frame_row_def frame_binop_def case_prod_unfold at_row_series_binop)

lemma at_row_sum_axis1:
  "at_row (sum_axis1 f) t = (if t < nrows f then nansum (map snd (frame_row f t)) else NaN)"
proof (cases "t < nrows f")
  case True
  then have "at_row (sum_axis1 f) t = sum_axis1 f ! t"
    by (simp add: at_row_def sum_axis1_def)
  also have "\<dots> = nansum (map snd (frame_row f t))"
    using True by (simp add: sum_axis1_def frame_row_def case_prod_unfold comp_def)
  finally show ?thesis using True by simp
next
  case False
  then show ?thesis by (simp add: at_row_def sum_axis1_def)
qed

lemma update_map_values:
  "AList.update k (h v) (map (\<lambda>(c, x). (c, h x)) al) = map (\<lambda>(c, x). (c, h x)) (AList.update k v al)"
  by (induction al) auto

lemma frame_row_set_column:
  "frame_row (set_column k xs f) t = AList.update k (at_row xs t) (frame_row f t)"
  by (simp add: frame_row_def set_column_def update_map_values [symmetric])

lemma instrument_pnl_unfold:
  "instrument_pnl pos fx =
     frame_binop cmul (snd (align_columns pos (returns_table fx)))
       (frame_map (shift1 (nrows pos)) (fst (align_columns pos (returns_table fx))))"
  by (simp add: instrument_pnl_def Let_def case_prod_unfold)

lemma nrows_instrument_pnl [simp]: "nrows (instrument_pnl pos fx) = nrows fx"
  by (simp add: instrument_pnl_unfold)

lemma pnl_table_row:
  "frame_row (pnl_table pos fx) t =
     AList.update ''total_pct''
       (if t < nrows fx
        then cdiv (nansum (map snd (frame_row (instrument_pnl pos fx) t))) (Num 1000000) else NaN)
       (AList.update ''total''
          (if t < nrows fx then nansum (map snd (frame_row (instrument_pnl pos fx) t)) else NaN)
          (frame_row (instrument_pnl pos fx) t))"
  by (simp add: pnl_table_def Let_def frame_row_set_column column_set_column
      at_row_series_map at_row_sum_axis1)

lemma instrument_pnl_row_set_row:
  "frame_row (instrument_pnl (set_row t v pos) fx) t = frame_row (instrument_pnl pos fx) t"
  unfolding instrument_pnl_unfold align_snd_set_row nrows_simps
  by (rule frame_row_frame_binop_cong) (rule shifted_row_set_row)

lemma pnl_table_row_set_row:
  "frame_row (pnl_table (set_row t v pos) fx) t = frame_row (pnl_table pos fx) t"
  by (simp add: pnl_table_row instrument_pnl_row_set_row)

lemma column_None_iff: "column f c = None \<longleftrightarrow> c \<notin> set (column_names f)"
  by (simp add: column_def column_names_def map_of_eq_None_iff)

lemma cmul_NaN_right [simp]: "cmul x NaN = NaN"
  by (cases x) simp_all

lemma cell_of_pnl_table:
  assumes "i \<noteq> ''total''" "i \<noteq> ''total_pct''" "0 < t" "t < nrows fx" "t < nrows pos"
  shows "cell_of (pnl_table pos fx) i t =
           cmul (cell_of (returns_table fx) i t) (cell_of pos i (t - 1))"
proof (cases "column_names pos = column_names (returns_table fx)")
  case True
  then show ?thesis
    using assms
    by (auto simp: cell_of_def pnl_table_def instrument_pnl_def Let_def align_columns_def column_set_column
        column_frame_binop column_frame_map at_row_series_binop at_row_shift1 column_None_iff
        dest: column_in_names split: option.splits)
next
  case False
  then show ?thesis
    using assms
    by (auto simp: cell_of_def pnl_table_def instrument_pnl_def Let_def align_columns_def column_set_column
        column_frame_binop column_frame_map at_row_series_binop at_row_shift1 column_None_iff
        column_reindex_columns
        dest: column_in_names split: option.splits)
qed

lemma cell_of_returns_table:
  assumes "0 < t" "t < nrows fx" "cell_of fx i t \<noteq> NaN" "cell_of fx i (t - 1) \<noteq> NaN"
  shows "cell_of (returns_table fx) i t = csub (cdiv (cell_of fx i t) (cell_of fx i (t - 1))) (Num 1)"
  using assms
  by (auto simp: cell_of_def returns_table_def column_frame_map at_row_pct_change split: option.splits)

section \<open>The worked example, evaluated\<close>

lemmas signal_eval = compute_signals_def swaps_of_def signals_of_def set_signals_def subsignal_column_def
  subsignal_of_diff_def rolling_mean_def series_binop_def series_map_def at_row_def nrows_def column_def
  threshold_column_def median_skipna_def sort_cells_def lerp_def discretize_def discretize_column_def
  set_column_def csub_def cgt_def cge_def cne_def inf_of_sign_def Let_def

lemmas position_eval = compute_positions_def signals_of_def frame_map_def sum_axis1_def nansum_def
  nanadd_def series_binop_def series_map_def at_row_def nrows_def same_shape_def
  inf_of_sign_def Let_def

lemmas pnl_eval = compute_pnl_def pnl_table_def instrument_pnl_def returns_table_def frame_map_def nrows_def pct_change_def
  ffill_def series_map_def series_binop_def shift1_def at_row_def align_columns_def column_names_def
  frame_binop_def column_def set_column_def sum_axis1_def nansum_def nanadd_def csub_def inf_of_sign_def
  Let_def

lemma demo_compute_signals: "compute_signals LON demo = Inr (demo\<lparr>signals_lon := demo_signals\<rparr>)"
  by (simp add: demo_defs signal_eval)

lemma demo_compute_positions:
  "compute_positions LON (Num 1000000) (demo\<lparr>signals_lon := demo_signals\<rparr>) = Inr demo_sized"
  by (simp add: demo_sized_def demo_defs position_eval)

lemma demo_pnl_columns:
  "pnl (compute_pnl demo_sized) = Some \<lparr>index = demo_index, columns =
     [(''AUDUSD'', [NaN, NaN, Num 0, Num 0]),
      (''EURUSD'', [NaN, NaN, Num 500000, Num 0]),
      (''GBPUSD'', [NaN, NaN, Num 0, Num (- 250000)]),
      (''total'', [Num 0, Num 0, Num 500000, Num (- 250000)]),
      (''total_pct'', [Num 0, Num 0, Num (1 / 2), Num (- (1 / 4))])]\<rparr>"
  by (simp add: demo_sized_def demo_defs pnl_eval)

lemma demo_run: "run demo = Inr (compute_pnl demo_sized)"
  by (simp add: run_def demo_compute_signals demo_compute_positions)

lemma at_row_pct_change_padded:
  assumes "0 < t" "t < n"
  shows "at_row (pct_change n xs) t =
           csub (cdiv (at_row (ffill xs) t) (at_row (ffill xs) (t - 1))) (Num 1)"
  using assms
  by (simp add: pct_change_def Let_def at_row_series_map at_row_series_binop at_row_shift1)

lemma cell_of_returns_table_padded:
  assumes "0 < t" "t < nrows fx"
  shows "cell_of (returns_table fx) i t =
           csub (cdiv (cell_of (frame_map ffill fx) i t) (cell_of (frame_map ffill fx) i (t - 1)))
                (Num 1)"
  using assms
  by (cases "column fx i")
     (simp_all add: cell_of_def returns_table_def column_frame_map at_row_pct_change_padded
        csub_def)

lemmas gap_defs = gap_demo_def gap_fx_def demo_fx_ny_def demo_swaps_def demo_index_def init_def
  zeros_def column_names_def demo_signals_def demo_positions_def

lemma gap_compute_signals:
  "compute_signals LON gap_demo = Inr (gap_demo\<lparr>signals_lon := demo_signals\<rparr>)"
  by (simp add: gap_defs signal_eval)

lemma gap_compute_positions:
  "compute_positions LON (Num 1000000) (gap_demo\<lparr>signals_lon := demo_signals\<rparr>) =
     Inr (gap_demo\<lparr>positions := demo_positions, signals_lon := demo_signals\<rparr>)"
  by (simp add: gap_defs position_eval)

lemma gap_pnl_table:
  "pnl_table demo_positions gap_fx = \<lparr>index = demo_index, columns =
     [(''AUDUSD'', [NaN, NaN, Num 0, Num 0]),
      (''EURUSD'', [NaN, NaN, Num 500000, Num 0]),
      (''GBPUSD'', [NaN, NaN, Num 0, Num (- 250000)]),
      (''total'', [Num 0, Num 0, Num 500000, Num (- 250000)]),
      (''total_pct'', [Num 0, Num 0, Num (1 / 2), Num (- (1 / 4))])]\<rparr>"
  by (simp add: gap_defs pnl_eval)

section \<open>The claims\<close>

subsection \<open>C1: the profit and loss of a period uses the position held entering it\<close>

text \<open>
  C1 (as amended). For every instrument \<open>i\<close> (any column name but the two summary
  columns) and every timestamp \<open>t\<close> after the first, the table \<^verbatim>\<open>compute_pnl\<close>
  stores satisfies \<open>pnl[i][t] = ret[i][t] * position[i][t-1]\<close>, where \<open>ret\<close> is the
  table \<^verbatim>\<open>fx_lon_fixes.pct_change()\<close>: \<open>ret[i][t] = p[i][t] / p[i][t-1] - 1\<close> with
  \<open>p\<close> the prices after every missing price has taken the last price before it. Where
  neither price is missing this is \<open>price[i][t] / price[i][t-1] - 1\<close>. Overwriting row
  \<open>t\<close> of the position table before a second run leaves row \<open>t\<close> of the P&L table,
  the two summary columns included, as it was.
\<close>

theorem compute_pnl_lags_positions:
  assumes "i \<noteq> ''total''" and "i \<noteq> ''total_pct''"
      and "0 < t" and "t < nrows (fx_lon_fixes b)" and "t < nrows (positions b)"
  shows "\<exists>p. pnl (compute_pnl b) = Some p \<and>
           cell_of p i t =
             cmul (cell_of (returns_table (fx_lon_fixes b)) i t) (cell_of (positions b) i (t - 1)) \<and>
           cell_of (returns_table (fx_lon_fixes b)) i t =
             csub (cdiv (cell_of (frame_map ffill (fx_lon_fixes b)) i t)
                        (cell_of (frame_map ffill (fx_lon_fixes b)) i (t - 1))) (Num 1) \<and>
           (cell_of (fx_lon_fixes b) i t \<noteq> NaN \<and> cell_of (fx_lon_fixes b) i (t - 1) \<noteq> NaN \<longrightarrow>
              cell_of (returns_table (fx_lon_fixes b)) i t =
                csub (cdiv (cell_of (fx_lon_fixes b) i t) (cell_of (fx_lon_fixes b) i (t - 1))) (Num 1)) \<and>
           (\<forall>v. \<exists>p'. pnl (compute_pnl (b\<lparr>positions := set_row t v (positions b)\<rparr>)) = Some p' \<and>
                      frame_row p' t = frame_row p t)"
proof -
  let ?p = "pnl_table (positions b) (fx_lon_fixes b)"
  have 1: "pnl (compute_pnl b) = Some ?p"
    by (simp add: compute_pnl_def)
  have 2: "cell_of ?p i t =
             cmul (cell_of (returns_table (fx_lon_fixes b)) i t) (cell_of (positions b) i (t - 1))"
    using assms by (rule cell_of_pnl_table)
  have 3: "cell_of (fx_lon_fixes b) i t \<noteq> NaN \<and> cell_of (fx_lon_fixes b) i (t - 1) \<noteq> NaN \<longrightarrow>
              cell_of (returns_table (fx_lon_fixes b)) i t =
                csub (cdiv (cell_of (fx_lon_fixes b) i t) (cell_of (fx_lon_fixes b) i (t - 1))) (Num 1)"
    using assms(3,4) by (simp add: cell_of_returns_table)
  have 4: "\<forall>v. \<exists>p'. pnl (compute_pnl (b\<lparr>positions := set_row t v (positions b)\<rparr>)) = Some p' \<and>
                      frame_row p' t = frame_row ?p t"
    by (simp add: compute_pnl_def pnl_table_row_set_row)
  have 5: "cell_of (returns_table (fx_lon_fixes b)) i t =
             csub (cdiv (cell_of (frame_map ffill (fx_lon_fixes b)) i t)
                        (cell_of (frame_map ffill (fx_lon_fixes b)) i (t - 1))) (Num 1)"
    using assms(3,4) by (rule cell_of_returns_table_padded)
  from 1 2 3 4 5 show ?thesis by blast
qed

theorem compute_pnl_lags_positions_witness:
  "''EURUSD'' \<noteq> ''total'' \<and> ''EURUSD'' \<noteq> ''total_pct'' \<and> (0::nat) < 2 \<and>
   2 < nrows (fx_lon_fixes demo_sized) \<and> 2 < nrows (positions demo_sized) \<and>
   cell_of (fx_lon_fixes demo_sized) ''EURUSD'' 2 = Num 2 \<and>
   cell_of (fx_lon_fixes demo_sized) ''EURUSD'' 1 = Num 1 \<and>
   cell_of (positions demo_sized) ''EURUSD'' 1 = Num 500000 \<and>
   (\<exists>p. pnl (compute_pnl demo_sized) = Some p \<and> cell_of p ''EURUSD'' 2 = Num 500000 \<and>
        cell_of (returns_table (fx_lon_fixes demo_sized)) ''EURUSD'' 2 = Num 1)"
proof -
  have h: "''EURUSD'' \<noteq> ''total''" "''EURUSD'' \<noteq> ''total_pct''" "(0::nat) < 2"
    "2 < nrows (fx_lon_fixes demo_sized)" "2 < nrows (positions demo_sized)"
    by (simp_all add: demo_sized_def demo_defs nrows_def)
  have c: "cell_of (fx_lon_fixes demo_sized) ''EURUSD'' 2 = Num 2"
    "cell_of (fx_lon_fixes demo_sized) ''EURUSD'' 1 = Num 1"
    "cell_of (positions demo_sized) ''EURUSD'' 1 = Num 500000"
    by (simp_all add: demo_sized_def demo_defs cell_of_def column_def at_row_def)
  from compute_pnl_lags_positions [OF h] obtain p where
    p: "pnl (compute_pnl demo_sized) = Some p"
       "cell_of p ''EURUSD'' 2 =
          cmul (cell_of (returns_table (fx_lon_fixes demo_sized)) ''EURUSD'' 2)
               (cell_of (positions demo_sized) ''EURUSD'' (2 - 1))"
       "cell_of (fx_lon_fixes demo_sized) ''EURUSD'' 2 \<noteq> NaN \<and>
        cell_of (fx_lon_fixes demo_sized) ''EURUSD'' (2 - 1) \<noteq> NaN \<longrightarrow>
          cell_of (returns_table (fx_lon_fixes demo_sized)) ''EURUSD'' 2 =
            csub (cdiv (cell_of (fx_lon_fixes demo_sized) ''EURUSD'' 2)
                       (cell_of (fx_lon_fixes demo_sized) ''EURUSD'' (2 - 1))) (Num 1)"
    by blast
  from p(3) c have r: "cell_of (returns_table (fx_lon_fixes demo_sized)) ''EURUSD'' 2 = Num 1"
    by (simp add: csub_def)
  from p(2) r c have "cell_of p ''EURUSD'' 2 = Num 500000"
    by simp
  with h c p(1) r show ?thesis by blast
qed

text \<open>
  C1 as stated fails: in the example with the EUR fix of the second day missing,
  \<^verbatim>\<open>run()\<close> stores 500000 for EUR on the third day (the return 2/1 - 1 over the padded
  price times the position 500000 of the second day), while
  \<open>(price[t] / price[t-1] - 1) * position[t-1]\<close> is missing there.
\<close>

theorem padded_return_across_a_missing_price:
  "\<exists>b p. run gap_demo = Inr b \<and> pnl b = Some p \<and>
      cell_of (fx_lon_fixes b) ''EURUSD'' 2 = Num 2 \<and>
      cell_of (fx_lon_fixes b) ''EURUSD'' 1 = NaN \<and>
      cell_of (positions b) ''EURUSD'' 1 = Num 500000 \<and>
      cmul (csub (cdiv (cell_of (fx_lon_fixes b) ''EURUSD'' 2)
                       (cell_of (fx_lon_fixes b) ''EURUSD'' 1)) (Num 1))
           (cell_of (positions b) ''EURUSD'' 1) = NaN \<and>
      cell_of p ''EURUSD'' 2 = Num 500000 \<and>
      cell_of p ''EURUSD'' 2 \<noteq>
        cmul (csub (cdiv (cell_of (fx_lon_fixes b) ''EURUSD'' 2)
                         (cell_of (fx_lon_fixes b) ''EURUSD'' 1)) (Num 1))
             (cell_of (positions b) ''EURUSD'' 1)"
proof -
  let ?b = "compute_pnl (gap_demo\<lparr>positions := demo_positions, signals_lon := demo_signals\<rparr>)"
  have r: "run gap_demo = Inr ?b"
    by (simp add: run_def gap_compute_signals gap_compute_positions)
  have fx: "fx_lon_fixes ?b = gap_fx" and pos: "positions ?b = demo_positions"
    by (simp_all add: compute_pnl_def gap_demo_def init_def Let_def)
  have p: "pnl ?b = Some (pnl_table demo_positions gap_fx)"
    by (simp add: compute_pnl_def gap_demo_def init_def Let_def)
  have c: "cell_of gap_fx ''EURUSD'' 2 = Num 2" "cell_of gap_fx ''EURUSD'' (Suc 0) = NaN"
    "cell_of demo_positions ''EURUSD'' (Suc 0) = Num 500000"
    "cell_of (pnl_table demo_positions gap_fx) ''EURUSD'' 2 = Num 500000"
    unfolding gap_pnl_table
    by (simp_all add: gap_fx_def demo_positions_def cell_of_def column_def at_row_def)
  show ?thesis
    by (intro exI [of _ ?b] exI [of _ "pnl_table demo_positions gap_fx"] conjI r p)
       (simp_all add: fx pos c csub_def)
qed

subsection \<open>C4: the summary columns of the P&L table\<close>

lemma map_of_frame_row: "map_of (frame_row f t) c = map_option (\<lambda>xs. at_row xs t) (column f c)"
  using map_of_map_keyed [of "\<lambda>c xs. at_row xs t" "columns f" c]
  by (simp add: frame_row_def column_def)

lemma cell_of_frame_row: "cell_of f c t = (case map_of (frame_row f t) c of Some x \<Rightarrow> x | None \<Rightarrow> NaN)"
  by (simp add: cell_of_def map_of_frame_row split: option.splits)

lemma update_absent: "k \<notin> fst ` set al \<Longrightarrow> AList.update k v al = al @ [(k, v)]"
  by (induction al) auto

lemma frame_row_names: "map fst (frame_row f t) = column_names f"
  by (simp add: frame_row_def column_names_def case_prod_unfold comp_def)

lemma cell_of_total:
  "t < nrows fx \<Longrightarrow>
   cell_of (pnl_table pos fx) ''total'' t = nansum (map snd (frame_row (instrument_pnl pos fx) t))"
  by (simp add: cell_of_frame_row pnl_table_row update_conv')

lemma cell_of_total_pct:
  "t < nrows fx \<Longrightarrow>
   cell_of (pnl_table pos fx) ''total_pct'' t = cdiv (cell_of (pnl_table pos fx) ''total'' t) (Num 1000000)"
  by (simp add: cell_of_frame_row pnl_table_row update_conv')

lemma column_names_frame_map [simp]: "column_names (frame_map g f) = column_names f"
  by (simp add: column_names_def frame_map_def case_prod_unfold comp_def)

lemma column_names_frame_binop [simp]: "column_names (frame_binop g l r) = column_names l"
  by (simp add: column_names_def frame_binop_def case_prod_unfold comp_def)

lemma column_names_reindex_columns [simp]: "column_names (reindex_columns cs f) = cs"
  by (simp add: column_names_def reindex_columns_def comp_def)

lemma column_names_instrument_pnl:
  "set (column_names (instrument_pnl pos fx)) \<subseteq> set (column_names pos) \<union> set (column_names fx)"
  by (simp add: instrument_pnl_unfold align_columns_def Let_def returns_table_def)

lemma instrument_cells_of_pnl_table:
  assumes "''total'' \<notin> set (column_names pos) \<union> set (column_names fx)"
      and "''total_pct'' \<notin> set (column_names pos) \<union> set (column_names fx)"
  shows "filter (\<lambda>(c, x). c \<noteq> ''total'' \<and> c \<noteq> ''total_pct'') (frame_row (pnl_table pos fx) t) =
           frame_row (instrument_pnl pos fx) t"
proof -
  let ?r = "frame_row (instrument_pnl pos fx) t"
  have s: "set (map fst ?r) \<subseteq> set (column_names pos) \<union> set (column_names fx)"
    unfolding frame_row_names by (rule column_names_instrument_pnl)
  have n1: "''total'' \<notin> fst ` set ?r"
    using assms(1) s by auto
  have n2: "''total_pct'' \<notin> fst ` set ?r"
    using assms(2) s by auto
  have f: "filter (\<lambda>(c, x). c \<noteq> ''total'' \<and> c \<noteq> ''total_pct'') ?r = ?r"
    unfolding filter_id_conv using n1 n2 by (auto simp: rev_image_eqI)
  have n3: "''total_pct'' \<notin> fst ` set (?r @ [(''total'', u)])" for u
    using n2 by auto
  show ?thesis
    using f by (simp add: pnl_table_row update_absent [OF n1] update_absent [OF n3])
qed

lemma demo_compute_positions_2m:
  "compute_positions LON (Num 2000000) (demo\<lparr>signals_lon := demo_signals\<rparr>) =
     Inr (demo_sized\<lparr>positions := demo_positions_2m\<rparr>)"
  by (simp add: demo_sized_def demo_positions_2m_def demo_defs position_eval)

lemma demo_pnl_columns_2m:
  "pnl (compute_pnl (demo_sized\<lparr>positions := demo_positions_2m\<rparr>)) = Some \<lparr>index = demo_index, columns =
     [(''AUDUSD'', [NaN, NaN, Num 0, Num 0]),
      (''EURUSD'', [NaN, NaN, Num 1000000, Num 0]),
      (''GBPUSD'', [NaN, NaN, Num 0, Num (- 500000)]),
      (''total'', [Num 0, Num 0, Num 1000000, Num (- 500000)]),
      (''total_pct'', [Num 0, Num 0, Num 1, Num (- (1 / 2))])]\<rparr>"
  by (simp add: demo_sized_def demo_positions_2m_def demo_defs pnl_eval)

lemma compute_positions_frame:
  assumes "compute_positions fix tge b = Inr b1"
  shows "fx_lon_fixes b1 = fx_lon_fixes b" "column_names (positions b1) = column_names (positions b)"
    "nrows (positions b1) = nrows (positions b)"
  using assms
  by (auto simp: compute_positions_def Let_def same_shape_def column_names_def nrows_def frame_map_def
      split: if_splits)

text \<open>
  C4 (as amended). Whatever target gross exposure \<^verbatim>\<open>compute_positions\<close> was given, at
  every timestamp \<open>t\<close> of the table \<^verbatim>\<open>compute_pnl\<close> stores, \<open>total[t]\<close> is the sum of
  the per-instrument cells of row \<open>t\<close> that are not missing (0 when all are missing), and
  \<open>total_pct[t]\<close> is \<open>total[t]\<close> divided by the literal 1,000,000, not by the exposure
  supplied. (No instrument is named \<open>total\<close> or \<open>total_pct\<close>.)
\<close>

theorem totals_of_compute_pnl:
  assumes "compute_positions fix target_gross_exposure b = Inr b1"
      and "''total'' \<notin> set (column_names (positions b)) \<union> set (column_names (fx_lon_fixes b))"
      and "''total_pct'' \<notin> set (column_names (positions b)) \<union> set (column_names (fx_lon_fixes b))"
      and "t < nrows (fx_lon_fixes b)"
  shows "\<exists>p. pnl (compute_pnl b1) = Some p \<and>
           cell_of p ''total'' t =
             nansum (map snd (filter (\<lambda>(c, x). c \<noteq> ''total'' \<and> c \<noteq> ''total_pct'') (frame_row p t))) \<and>
           cell_of p ''total_pct'' t = cdiv (cell_of p ''total'' t) (Num 1000000)"
proof -
  note f = compute_positions_frame [OF assms(1)]
  let ?p = "pnl_table (positions b1) (fx_lon_fixes b1)"
  have "filter (\<lambda>(c, x). c \<noteq> ''total'' \<and> c \<noteq> ''total_pct'') (frame_row ?p t) =
          frame_row (instrument_pnl (positions b1) (fx_lon_fixes b1)) t"
    using assms(2,3) by (intro instrument_cells_of_pnl_table) (simp_all add: f)
  moreover have "t < nrows (fx_lon_fixes b1)"
    using assms(4) by (simp add: f)
  ultimately show ?thesis
    by (simp add: compute_pnl_def cell_of_total cell_of_total_pct)
qed

theorem totals_of_compute_pnl_witness:
  "compute_positions LON (Num 2000000) (demo\<lparr>signals_lon := demo_signals\<rparr>) =
     Inr (demo_sized\<lparr>positions := demo_positions_2m\<rparr>) \<and>
   ''total'' \<notin> set (column_names (positions (demo\<lparr>signals_lon := demo_signals\<rparr>))) \<union>
                set (column_names (fx_lon_fixes (demo\<lparr>signals_lon := demo_signals\<rparr>))) \<and>
   ''total_pct'' \<notin> set (column_names (positions (demo\<lparr>signals_lon := demo_signals\<rparr>))) \<union>
                set (column_names (fx_lon_fixes (demo\<lparr>signals_lon := demo_signals\<rparr>))) \<and>
   3 < nrows (fx_lon_fixes (demo\<lparr>signals_lon := demo_signals\<rparr>)) \<and>
   (\<exists>p. pnl (compute_pnl (demo_sized\<lparr>positions := demo_positions_2m\<rparr>)) = Some p \<and>
        cell_of p ''total'' 3 = Num (- 500000) \<and>
        cell_of p ''total_pct'' 3 = Num (- (1 / 2)))"
proof -
  have h: "''total'' \<notin> set (column_names (positions (demo\<lparr>signals_lon := demo_signals\<rparr>))) \<union>
                set (column_names (fx_lon_fixes (demo\<lparr>signals_lon := demo_signals\<rparr>)))"
     "''total_pct'' \<notin> set (column_names (positions (demo\<lparr>signals_lon := demo_signals\<rparr>))) \<union>
                set (column_names (fx_lon_fixes (demo\<lparr>signals_lon := demo_signals\<rparr>)))"
     "3 < nrows (fx_lon_fixes (demo\<lparr>signals_lon := demo_signals\<rparr>))"
    by (simp_all add: demo_defs nrows_def)
  from totals_of_compute_pnl [OF demo_compute_positions_2m h] obtain p where
    p: "pnl (compute_pnl (demo_sized\<lparr>positions := demo_positions_2m\<rparr>)) = Some p"
       "cell_of p ''total'' 3 =
          nansum (map snd (filter (\<lambda>(c, x). c \<noteq> ''total'' \<and> c \<noteq> ''total_pct'') (frame_row p 3)))"
       "cell_of p ''total_pct'' 3 = cdiv (cell_of p ''total'' 3) (Num 1000000)"
    by blast
  from p(1) have q: "p = \<lparr>index = demo_index, columns =
     [(''AUDUSD'', [NaN, NaN, Num 0, Num 0]),
      (''EURUSD'', [NaN, NaN, Num 1000000, Num 0]),
      (''GBPUSD'', [NaN, NaN, Num 0, Num (- 500000)]),
      (''total'', [Num 0, Num 0, Num 1000000, Num (- 500000)]),
      (''total_pct'', [Num 0, Num 0, Num 1, Num (- (1 / 2))])]\<rparr>"
    by (simp add: demo_pnl_columns_2m)
  have t: "cell_of p ''total'' 3 = Num (- 500000)"
    unfolding p(2) by (simp add: q frame_row_def at_row_def nansum_def nanadd_def)
  have "cell_of p ''total_pct'' 3 = Num (- (1 / 2))"
    unfolding p(3) t by simp
  with t p(1) h demo_compute_positions_2m show ?thesis by blast
qed

text \<open>
  C4 as stated fails: with a target gross exposure of 2,000,000 the example has
  \<open>total = 1000000\<close> on the third day and \<open>total_pct = 1\<close>, not \<open>1/2\<close>; and on
  the second day, where every instrument's cell is missing, \<open>total\<close> is 0.
\<close>

theorem total_pct_ignores_target_gross_exposure:
  "\<exists>b1 b2 p. compute_signals LON demo = Inr b1 \<and>
      compute_positions LON (Num 2000000) b1 = Inr b2 \<and>
      pnl (compute_pnl b2) = Some p \<and>
      cell_of p ''total'' 2 = Num 1000000 \<and>
      cell_of p ''total_pct'' 2 = Num 1 \<and>
      cdiv (cell_of p ''total'' 2) (Num 2000000) = Num (1 / 2) \<and>
      cell_of p ''total_pct'' 2 \<noteq> cdiv (cell_of p ''total'' 2) (Num 2000000) \<and>
      cell_of p ''AUDUSD'' 1 = NaN \<and> cell_of p ''EURUSD'' 1 = NaN \<and>
      cell_of p ''GBPUSD'' 1 = NaN \<and> cell_of p ''total'' 1 = Num 0"
  by (simp add: demo_compute_signals demo_compute_positions_2m demo_pnl_columns_2m
      cell_of_def column_def at_row_def)

subsection \<open>C3: a timestamp with no signal\<close>

lemma nansum_all_zero: "list_all (\<lambda>x. x = Num 0) xs \<Longrightarrow> nansum xs = Num 0"
proof -
  have "list_all (\<lambda>x. x = Num 0) xs \<Longrightarrow> foldl nanadd (Num 0) xs = Num 0"
    by (induction xs) (auto simp: nanadd_def)
  then show "list_all (\<lambda>x. x = Num 0) xs \<Longrightarrow> nansum xs = Num 0"
    by (simp add: nansum_def)
qed

lemma nansum_all_NaN: "list_all (\<lambda>x. x = NaN) xs \<Longrightarrow> nansum xs = Num 0"
proof -
  have "list_all (\<lambda>x. x = NaN) xs \<Longrightarrow> foldl nanadd a xs = a" for a
    by (induction xs) (auto simp: nanadd_def)
  then show "list_all (\<lambda>x. x = NaN) xs \<Longrightarrow> nansum xs = Num 0"
    by (simp add: nansum_def)
qed

lemma cmul_zero_div_zero [simp]: "cmul (Num 0) (cdiv g (Num 0)) = NaN"
  by (cases g) (simp_all add: inf_of_sign_def)

lemma row_values: "map snd (frame_row f t) = map (\<lambda>xs. at_row xs t) (map snd (columns f))"
  by (simp add: frame_row_def case_prod_unfold comp_def)

lemma row_cell:
  "list_all P (map snd (frame_row f t)) \<Longrightarrow> column f c = Some xs \<Longrightarrow> P (at_row xs t)"
  by (auto simp: row_values list_all_iff column_def dest!: map_of_SomeD)

lemma zero_signal_row_positions:
  assumes "compute_positions fix tge b = Inr b1"
      and "list_all (\<lambda>x. x = Num 0) (map snd (frame_row (signals_of fix b) t))"
  shows "list_all (\<lambda>x. x = NaN) (map snd (frame_row (positions b1) t))"
proof -
  let ?sig = "signals_of fix b"
  let ?n = "nrows ?sig"
  let ?base = "series_map ?n (cdiv tge) (sum_axis1 (frame_map (series_map ?n cabs) ?sig))"
  let ?nom = "frame_map (\<lambda>xs. series_binop ?n cmul xs ?base) ?sig"
  from assms(1) have shape: "same_shape ?nom (positions b)"
    and b1: "positions b1 = (positions b)\<lparr>columns :=
               zip (column_names (positions b)) (map snd (columns ?nom))\<rparr>"
    by (auto simp: compute_positions_def Let_def split: if_splits)
  from shape have "length (columns ?nom) = length (columns (positions b))"
    unfolding same_shape_def by (rule conjunct2)
  then have len: "length (column_names (positions b)) = length (map snd (columns ?nom))"
    by (simp add: column_names_def)
  have vals: "map snd (frame_row (positions b1) t) = map snd (frame_row ?nom t)"
    using len by (simp add: row_values b1)
  have "list_all (\<lambda>x. x = NaN) (map snd (frame_row ?nom t))"
  proof (cases "t < ?n")
    case True
    have zero: "list_all (\<lambda>x. x = Num 0) (map snd (frame_row (frame_map (series_map ?n cabs) ?sig) t))"
      using assms(2) True
      by (auto simp: row_values frame_map_def case_prod_unfold comp_def list_all_iff at_row_series_map)
    have base: "at_row ?base t = cdiv tge (Num 0)"
      using zero True by (simp add: at_row_series_map at_row_sum_axis1 nansum_all_zero)
    show ?thesis
      using assms(2) base True
      by (auto simp: row_values frame_map_def case_prod_unfold comp_def list_all_iff at_row_series_binop)
  next
    case False
    then show ?thesis
      by (auto simp: row_values frame_map_def case_prod_unfold comp_def list_all_iff at_row_series_binop)
  qed
  with vals show ?thesis by simp
qed

lemma missing_positions_instrument_pnl:
  assumes "list_all (\<lambda>x. x = NaN) (map snd (frame_row pos t))"
  shows "list_all (\<lambda>x. x = NaN) (map snd (frame_row (instrument_pnl pos fx) (Suc t)))"
proof -
  have a: "at_row (case column (frame_map (shift1 m) (fst (align_columns pos r))) c of
                     Some ys \<Rightarrow> ys | None \<Rightarrow> []) (Suc t) = NaN" for c m r
  proof (cases "column pos c")
    case None
    then show ?thesis
      by (simp add: align_columns_def Let_def column_frame_map column_reindex_columns at_row_shift1)
  next
    case (Some zs)
    with assms have "at_row zs t = NaN" by (rule row_cell)
    with Some show ?thesis
      by (simp add: align_columns_def Let_def column_frame_map column_reindex_columns at_row_shift1)
  qed
  show ?thesis
    unfolding instrument_pnl_unfold
    by (simp add: row_values frame_binop_def case_prod_unfold comp_def list_all_iff
        at_row_series_binop a)
qed

lemma cell_of_instrument:
  assumes "i \<noteq> ''total''" "i \<noteq> ''total_pct''"
  shows "cell_of (pnl_table pos fx) i t = cell_of (instrument_pnl pos fx) i t"
  using assms by (simp add: cell_of_frame_row pnl_table_row update_conv')

lemma cell_of_missing_row:
  "list_all (\<lambda>x. x = NaN) (map snd (frame_row f t)) \<Longrightarrow> cell_of f i t = NaN"
  by (cases "column f i") (auto simp: cell_of_def dest: row_cell)

lemma cabs_NaN_iff [simp]: "cabs x = NaN \<longleftrightarrow> x = NaN"
  by (cases x) simp_all

lemma csub_NaN [simp]: "csub NaN y = NaN" "csub x NaN = NaN"
  by (cases x; simp add: csub_def)+

lemma cmul_NaN_left [simp]: "cmul NaN y = NaN"
  by simp

lemma missing_positions_costs:
  assumes "list_all (\<lambda>x. x = NaN) (map snd (frame_row (positions b) t))"
      and "spreads b = Some sp"
  shows "\<exists>tc. compute_transaction_costs b = Inr tc \<and>
           list_all (\<lambda>x. x = NaN) (map snd (frame_row tc t)) \<and>
           list_all (\<lambda>x. x = NaN) (map snd (frame_row tc (Suc t)))"
proof -
  have "at_row xs t = NaN" if "xs \<in> snd ` set (columns (positions b))" for xs
    using assms(1) that by (auto simp: row_values list_all_iff)
  then show ?thesis
    using assms(2)
    by (auto simp: compute_transaction_costs_def Let_def row_values frame_map_def case_prod_unfold
        comp_def list_all_iff at_row_series_map diff1_def at_row_series_binop at_row_shift1)
qed

text \<open>
  C3 (as amended). Where all composite signals of the session are zero at timestamp \<open>t\<close>,
  \<^verbatim>\<open>compute_positions\<close> leaves every position of row \<open>t\<close> missing (NaN), for any target
  gross exposure; every per-instrument P&L cell of the next row is then missing, and so is
  every transaction cost of rows \<open>t\<close> and \<open>t + 1\<close> (once a spread table is there). The
  summary columns do not carry the marker: \<open>total\<close> and \<open>total_pct\<close> of that P&L row, whose
  per-instrument cells are all missing, are 0.
\<close>

theorem zero_signal_row_propagates:
  assumes "compute_positions fix target_gross_exposure b = Inr b1"
      and "list_all (\<lambda>x. x = Num 0) (map snd (frame_row (signals_of fix b) t))"
      and "Suc t < nrows (fx_lon_fixes b)"
  shows "list_all (\<lambda>x. x = NaN) (map snd (frame_row (positions b1) t)) \<and>
         (\<exists>p. pnl (compute_pnl b1) = Some p \<and>
              (\<forall>i. i \<noteq> ''total'' \<and> i \<noteq> ''total_pct'' \<longrightarrow> cell_of p i (Suc t) = NaN) \<and>
              cell_of p ''total'' (Suc t) = Num 0 \<and>
              cell_of p ''total_pct'' (Suc t) = Num 0) \<and>
         (\<forall>sp. \<exists>tc. compute_transaction_costs (b1\<lparr>spreads := Some sp\<rparr>) = Inr tc \<and>
              list_all (\<lambda>x. x = NaN) (map snd (frame_row tc t)) \<and>
              list_all (\<lambda>x. x = NaN) (map snd (frame_row tc (Suc t))))"
proof -
  let ?p = "pnl_table (positions b1) (fx_lon_fixes b1)"
  have pos: "list_all (\<lambda>x. x = NaN) (map snd (frame_row (positions b1) t))"
    using assms(1,2) by (rule zero_signal_row_positions)
  then have row: "list_all (\<lambda>x. x = NaN)
                    (map snd (frame_row (instrument_pnl (positions b1) (fx_lon_fixes b1)) (Suc t)))"
    by (rule missing_positions_instrument_pnl)
  have n: "Suc t < nrows (fx_lon_fixes b1)"
    using assms(3) by (simp add: compute_positions_frame [OF assms(1)])
  have inst: "cell_of ?p i (Suc t) = NaN" if "i \<noteq> ''total''" "i \<noteq> ''total_pct''" for i
    using that row by (simp add: cell_of_instrument cell_of_missing_row)
  have tot: "cell_of ?p ''total'' (Suc t) = Num 0"
    using n row by (simp add: cell_of_total nansum_all_NaN)
  have pct: "cell_of ?p ''total_pct'' (Suc t) = Num 0"
    using n tot by (simp add: cell_of_total_pct)
  have cost: "\<exists>tc. compute_transaction_costs (b1\<lparr>spreads := Some sp\<rparr>) = Inr tc \<and>
              list_all (\<lambda>x. x = NaN) (map snd (frame_row tc t)) \<and>
              list_all (\<lambda>x. x = NaN) (map snd (frame_row tc (Suc t)))" for sp
    using pos by (intro missing_positions_costs) simp_all
  have "pnl (compute_pnl b1) = Some ?p"
    by (simp add: compute_pnl_def)
  with pos inst tot pct cost show ?thesis by blast
qed

theorem zero_signal_row_propagates_witness:
  "compute_positions LON (Num 1000000) (demo\<lparr>signals_lon := demo_signals\<rparr>) = Inr demo_sized \<and>
   list_all (\<lambda>x. x = Num 0)
     (map snd (frame_row (signals_of LON (demo\<lparr>signals_lon := demo_signals\<rparr>)) 0)) \<and>
   Suc 0 < nrows (fx_lon_fixes (demo\<lparr>signals_lon := demo_signals\<rparr>)) \<and>
   list_all (\<lambda>x. x = NaN) (map snd (frame_row (positions demo_sized) 0)) \<and>
   (\<exists>p. pnl (compute_pnl demo_sized) = Some p \<and>
        cell_of p ''EURUSD'' (Suc 0) = NaN \<and>
        cell_of p ''total'' (Suc 0) = Num 0 \<and>
        cell_of p ''total_pct'' (Suc 0) = Num 0)"
proof -
  have h: "list_all (\<lambda>x. x = Num 0)
             (map snd (frame_row (signals_of LON (demo\<lparr>signals_lon := demo_signals\<rparr>)) 0))"
    "Suc 0 < nrows (fx_lon_fixes (demo\<lparr>signals_lon := demo_signals\<rparr>))"
    by (simp_all add: demo_defs signals_of_def frame_row_def at_row_def nrows_def)
  from zero_signal_row_propagates [OF demo_compute_positions h] obtain p where
    pos: "list_all (\<lambda>x. x = NaN) (map snd (frame_row (positions demo_sized) 0))"
    and p: "pnl (compute_pnl demo_sized) = Some p"
      "\<forall>i. i \<noteq> ''total'' \<and> i \<noteq> ''total_pct'' \<longrightarrow> cell_of p i (Suc 0) = NaN"
      "cell_of p ''total'' (Suc 0) = Num 0"
      "cell_of p ''total_pct'' (Suc 0) = Num 0"
    by (elim conjE exE)
  from p(2) have e: "cell_of p ''EURUSD'' (Suc 0) = NaN"
    by simp
  show ?thesis
    by (intro conjI exI [of _ p] demo_compute_positions h pos p(1) e p(3) p(4))
qed

text \<open>
  C3 as stated fails: \<^verbatim>\<open>run()\<close> on the example has no signal on the first day, the
  positions of that day and the per-instrument P&L of the second day are missing, and the
  \<open>total\<close> and \<open>total_pct\<close> of the second day are 0, not missing.
\<close>

theorem total_of_missing_row_is_zero:
  "\<exists>b1 b2 p. compute_signals LON demo = Inr b1 \<and>
      cell_of (signals_lon b1) ''AUDUSD'' 0 = Num 0 \<and>
      cell_of (signals_lon b1) ''EURUSD'' 0 = Num 0 \<and>
      cell_of (signals_lon b1) ''GBPUSD'' 0 = Num 0 \<and>
      compute_positions LON (Num 1000000) b1 = Inr b2 \<and>
      cell_of (positions b2) ''AUDUSD'' 0 = NaN \<and>
      cell_of (positions b2) ''EURUSD'' 0 = NaN \<and>
      cell_of (positions b2) ''GBPUSD'' 0 = NaN \<and>
      run demo = Inr (compute_pnl b2) \<and>
      pnl (compute_pnl b2) = Some p \<and>
      cell_of p ''AUDUSD'' 1 = NaN \<and> cell_of p ''EURUSD'' 1 = NaN \<and> cell_of p ''GBPUSD'' 1 = NaN \<and>
      cell_of p ''total'' 1 = Num 0 \<and> cell_of p ''total_pct'' 1 = Num 0 \<and>
      cell_of p ''total'' 1 \<noteq> NaN"
  by (simp add: demo_compute_signals demo_compute_positions demo_run demo_pnl_columns
      cell_of_def column_def at_row_def)
     (simp add: demo_sized_def demo_signals_def demo_positions_def at_row_def)

subsection \<open>C2: the gross exposure of the positions\<close>

lemma nansum_Num: "nansum (map Num xs) = Num (sum_list xs)"
proof -
  have "foldl nanadd (Num a) (map Num xs) = Num (a + sum_list xs)" for a
    by (induction xs arbitrary: a) (simp_all add: nanadd_def add.assoc)
  from this [of 0] show ?thesis
    by (simp add: nansum_def)
qed

lemma compute_positions_row:
  assumes "compute_positions fix tge b = Inr b1" and "t < nrows (signals_of fix b)"
  shows "map snd (frame_row (positions b1) t) =
           map (\<lambda>x. cmul x (cdiv tge (nansum (map cabs (map snd (frame_row (signals_of fix b) t))))))
             (map snd (frame_row (signals_of fix b) t))"
proof -
  let ?sig = "signals_of fix b"
  let ?n = "nrows ?sig"
  let ?base = "series_map ?n (cdiv tge) (sum_axis1 (frame_map (series_map ?n cabs) ?sig))"
  let ?nom = "frame_map (\<lambda>xs. series_binop ?n cmul xs ?base) ?sig"
  from assms(1) have shape: "same_shape ?nom (positions b)"
    and b1: "positions b1 = (positions b)\<lparr>columns :=
               zip (column_names (positions b)) (map snd (columns ?nom))\<rparr>"
    by (auto simp: compute_positions_def Let_def split: if_splits)
  from shape have "length (columns ?nom) = length (columns (positions b))"
    unfolding same_shape_def by (rule conjunct2)
  then have len: "length (column_names (positions b)) = length (map snd (columns ?nom))"
    by (simp add: column_names_def)
  have vals: "map snd (frame_row (positions b1) t) = map snd (frame_row ?nom t)"
    using len by (simp add: row_values b1)
  have abs_row: "map snd (frame_row (frame_map (series_map ?n cabs) ?sig) t) =
                   map cabs (map snd (frame_row ?sig t))"
    using assms(2)
    by (simp add: row_values frame_map_def case_prod_unfold comp_def at_row_series_map)
  have base: "at_row ?base t = cdiv tge (nansum (map cabs (map snd (frame_row ?sig t))))"
    using assms(2) by (simp add: at_row_series_map at_row_sum_axis1 abs_row)
  have "map snd (frame_row ?nom t) =
          map (\<lambda>x. cmul x (at_row ?base t)) (map snd (frame_row ?sig t))"
    using assms(2)
    by (simp add: row_values frame_map_def case_prod_unfold comp_def at_row_series_binop)
  with vals base show ?thesis by simp
qed

lemma sum_abs_mult_const:
  fixes c :: real
  shows "(\<Sum>p\<leftarrow>map (\<lambda>s. s * c) ss. \<bar>p\<bar>) = (\<Sum>s\<leftarrow>ss. \<bar>s\<bar>) * \<bar>c\<bar>"
  by (induction ss) (simp_all add: abs_mult algebra_simps)

lemma sum_abs_scaled:
  fixes g :: real
  assumes "0 \<le> g" and "0 < (\<Sum>s\<leftarrow>ss. \<bar>s\<bar>)"
  shows "(\<Sum>p\<leftarrow>map (\<lambda>s. s * (g / (\<Sum>s\<leftarrow>ss. \<bar>s\<bar>))) ss. \<bar>p\<bar>) = g"
  unfolding sum_abs_mult_const using assms by simp

lemma sum_abs_pos:
  fixes ss :: "real list"
  assumes "\<exists>s\<in>set ss. s \<noteq> 0"
  shows "0 < (\<Sum>s\<leftarrow>ss. \<bar>s\<bar>)"
proof -
  from assms obtain s where s: "s \<in> set ss" "s \<noteq> 0" by blast
  have "\<bar>s\<bar> \<le> (\<Sum>s\<leftarrow>ss. \<bar>s\<bar>)"
    using s(1) by (intro member_le_sum_list) auto
  with s(2) show ?thesis by simp
qed

text \<open>
  In exact arithmetic: at every timestamp \<open>t\<close> where the composite signals are finite and
  at least one is nonzero, the positions for a target gross exposure \<open>g \<ge> 0\<close> are finite
  and the sum of their absolute values over all instruments is \<open>g\<close>.
\<close>

lemma gross_exposure_in_exact_arithmetic:
  assumes "compute_positions fix (Num g) b = Inr b1"
      and "0 \<le> g"
      and "t < nrows (signals_of fix b)"
      and "map snd (frame_row (signals_of fix b) t) = map Num ss"
      and "\<exists>s\<in>set ss. s \<noteq> 0"
  shows "\<exists>ps. map snd (frame_row (positions b1) t) = map Num ps \<and> (\<Sum>p\<leftarrow>ps. \<bar>p\<bar>) = g"
proof -
  let ?S = "\<Sum>s\<leftarrow>ss. \<bar>s\<bar>"
  have S: "0 < ?S" using assms(5) by (rule sum_abs_pos)
  have "nansum (map cabs (map Num ss)) = Num ?S"
    using nansum_Num [of "map abs ss"] by (simp add: comp_def)
  then have "map snd (frame_row (positions b1) t) = map (\<lambda>x. cmul x (Num (g / ?S))) (map Num ss)"
    using compute_positions_row [OF assms(1,3)] S by (simp add: assms(4))
  then have "map snd (frame_row (positions b1) t) = map Num (map (\<lambda>s. s * (g / ?S)) ss)"
    by (simp add: comp_def)
  moreover have "(\<Sum>p\<leftarrow>map (\<lambda>s. s * (g / ?S)) ss. \<bar>p\<bar>) = g"
    using assms(2) S by (rule sum_abs_scaled)
  ultimately show ?thesis by blast
qed

lemma round_half_even_error: "\<bar>of_int (round_half_even y) - y\<bar> \<le> 1 / 2"
proof -
  define f where "f = \<lfloor>y\<rfloor>"
  have "of_int f \<le> y" "y < of_int f + 1"
    unfolding f_def by linarith+
  then show ?thesis
    unfolding round_half_even_def Let_def f_def [symmetric]
    by (simp add: abs_if)
qed

lemma round_half_even_of_int [simp]: "round_half_even (of_int m) = m"
  by (simp add: round_half_even_def)

lemma round_double_error: "\<bar>round_double x - x\<bar> \<le> \<bar>x\<bar> / 2 ^ 53"
proof (cases "x = 0")
  case True
  then show ?thesis by (simp add: round_double_def)
next
  case False
  define L where "L = \<lfloor>log 2 \<bar>x\<bar>\<rfloor>"
  define e where "e = L - 52"
  define y where "y = x / 2 powr e"
  have pos: "0 < 2 powr (real_of_int e)" by simp
  have x: "x = y * 2 powr e"
    by (simp add: y_def)
  have "round_double x - x = (of_int (round_half_even y) - y) * 2 powr e"
    using False by (simp add: round_double_def Let_def L_def e_def y_def algebra_simps)
  then have "\<bar>round_double x - x\<bar> = \<bar>of_int (round_half_even y) - y\<bar> * 2 powr e"
    by (simp add: abs_mult)
  also have "\<dots> \<le> (1 / 2) * 2 powr e"
    using round_half_even_error [of y] by (intro mult_right_mono) simp_all
  also have "\<dots> = 2 powr (real_of_int L) / 2 ^ 53"
  proof -
    have "2 powr (real_of_int e) = 2 powr (real_of_int L) * 2 powr (- 52)"
      by (simp add: e_def powr_add [symmetric])
    also have "(2::real) powr (- 52) = 1 / 2 ^ 52"
      by (simp add: powr_minus_divide powr_numeral [symmetric] del: powr_numeral)
    finally show ?thesis by simp
  qed
  also have "\<dots> \<le> \<bar>x\<bar> / 2 ^ 53"
  proof -
    have "real_of_int L \<le> log 2 \<bar>x\<bar>"
      by (simp add: L_def)
    then have "2 powr (real_of_int L) \<le> 2 powr (log 2 \<bar>x\<bar>)"
      by simp
    also have "\<dots> = \<bar>x\<bar>"
      using False by simp
    finally show ?thesis
      by (simp add: divide_right_mono)
  qed
  finally show ?thesis .
qed


lemma round_double_nonneg: "0 \<le> x \<Longrightarrow> 0 \<le> round_double x"
proof -
  assume x: "0 \<le> x"
  have "x / 2 ^ 53 \<le> x"
    using x by (simp add: divide_le_eq)
  with round_double_error [of x] x show ?thesis
    by (simp add: abs_if split: if_splits)
qed

lemma two_powr_neg:
  assumes "e \<le> 0"
  shows "(2::real) powr (real_of_int e) = 1 / 2 ^ nat (- e)"
proof -
  define n where "n = nat (- e)"
  have e: "real_of_int e = - real n"
    using assms by (simp add: n_def)
  show ?thesis
    unfolding n_def [symmetric] e by (simp add: powr_minus_divide powr_realpow)
qed

lemma round_double_scaled:
  assumes "x \<noteq> 0" and "\<lfloor>log 2 \<bar>x\<bar>\<rfloor> = L" and "L \<le> 52"
  shows "round_double x = of_int (round_half_even (x * 2 ^ nat (52 - L))) / 2 ^ nat (52 - L)"
  using assms two_powr_neg [of "L - 52"] by (simp add: round_double_def Let_def)

lemma round_double_of_int:
  assumes "\<bar>z\<bar> < 2 ^ 53"
  shows "round_double (of_int z) = of_int z"
proof (cases "z = 0")
  case True
  then show ?thesis by (simp add: round_double_def)
next
  case False
  define L where "L = \<lfloor>log 2 \<bar>real_of_int z\<bar>\<rfloor>"
  have pow: "log 2 ((2::real) ^ n) = real n" for n
    by (simp add: log_nat_power)
  have "\<bar>real_of_int z\<bar> < 2 ^ 53"
    using assms by (simp add: abs_less_iff)
  then have "log 2 \<bar>real_of_int z\<bar> < log 2 (2 ^ 53)"
    using False by (subst log_less_cancel_iff) simp_all
  also note pow [of 53]
  finally have "L < 53"
    unfolding L_def by linarith
  then have L: "L \<le> 52" by simp
  have "round_double (of_int z) =
          of_int (round_half_even (of_int z * 2 ^ nat (52 - L))) / 2 ^ nat (52 - L)"
    using False L by (intro round_double_scaled) (simp_all add: L_def)
  also have "real_of_int z * 2 ^ nat (52 - L) = of_int (z * 2 ^ nat (52 - L))"
    by simp
  also have "of_int (round_half_even (of_int (z * 2 ^ nat (52 - L)))) / 2 ^ nat (52 - L) =
               real_of_int z"
    unfolding round_half_even_of_int by simp
  finally show ?thesis .
qed

lemma round_double_eval:
  assumes "2 ^ k \<le> \<bar>x\<bar>" and "\<bar>x\<bar> < 2 * 2 ^ k" and "k \<le> 52"
  shows "round_double x = of_int (round_half_even (x * 2 ^ (52 - k))) / 2 ^ (52 - k)"
proof -
  have pos: "0 < \<bar>x\<bar>"
  proof -
    have "(0::real) < 2 ^ k" by simp
    with assms(1) show ?thesis by linarith
  qed
  have "real k \<le> log 2 \<bar>x\<bar>"
    using pos assms(1) by (simp add: le_log_iff powr_realpow)
  moreover have "log 2 \<bar>x\<bar> < real k + 1"
    using pos assms(2) by (simp add: log_less_iff powr_add powr_realpow)
  ultimately have "\<lfloor>log 2 \<bar>x\<bar>\<rfloor> = int k"
    by (intro floor_unique) simp_all
  moreover have "nat (52 - int k) = 52 - k"
    using assms(3) by simp
  ultimately show ?thesis
    using round_double_scaled [of x "int k"] pos assms(3) by simp
qed

lemma rounded_sum_of_ints:
  assumes "(\<Sum>z\<leftarrow>zs. \<bar>z\<bar>) < 2 ^ 53"
  shows "rounded_sum round_double (map abs (map of_int zs)) = of_int (\<Sum>z\<leftarrow>zs. \<bar>z\<bar>)"
proof -
  have "0 \<le> a \<Longrightarrow> a + (\<Sum>z\<leftarrow>zs. \<bar>z\<bar>) < 2 ^ 53 \<Longrightarrow>
          foldl (\<lambda>a x. round_double (a + x)) (of_int a) (map abs (map of_int zs)) =
            of_int (a + (\<Sum>z\<leftarrow>zs. \<bar>z\<bar>))" for a
  proof (induction zs arbitrary: a)
    case Nil
    then show ?case by simp
  next
    case (Cons z zs)
    have nonneg: "0 \<le> (\<Sum>z\<leftarrow>zs. \<bar>z\<bar>)"
      by (rule sum_list_nonneg) auto
    have "real_of_int a + \<bar>real_of_int z\<bar> = of_int (a + \<bar>z\<bar>)"
      by simp
    moreover have "round_double (of_int (a + \<bar>z\<bar>)) = of_int (a + \<bar>z\<bar>)"
      using Cons.prems nonneg by (intro round_double_of_int) simp
    ultimately have step: "round_double (real_of_int a + \<bar>real_of_int z\<bar>) = of_int (a + \<bar>z\<bar>)"
      by simp
    show ?case
      using Cons.IH [of "a + \<bar>z\<bar>"] Cons.prems by (simp add: step add.assoc)
  qed
  from this [of 0] assms show ?thesis
    by (simp add: rounded_sum_def)
qed


lemma sum_list_abs_diff:
  fixes f h k :: "'a \<Rightarrow> real"
  assumes "\<And>x. x \<in> set xs \<Longrightarrow> \<bar>f x - h x\<bar> \<le> k x"
  shows "\<bar>(\<Sum>x\<leftarrow>xs. f x) - (\<Sum>x\<leftarrow>xs. h x)\<bar> \<le> (\<Sum>x\<leftarrow>xs. k x)"
  using assms
proof (induction xs)
  case Nil
  then show ?case by simp
next
  case (Cons x xs)
  have "\<bar>f x - h x\<bar> \<le> k x"
    by (rule Cons.prems) simp
  moreover have "\<bar>(\<Sum>x\<leftarrow>xs. f x) - (\<Sum>x\<leftarrow>xs. h x)\<bar> \<le> (\<Sum>x\<leftarrow>xs. k x)"
    by (rule Cons.IH) (simp add: Cons.prems)
  ultimately show ?case
    by simp
qed

lemma sum_list_mult_right:
  fixes c :: real
  shows "(\<Sum>x\<leftarrow>xs. f x * c) = (\<Sum>x\<leftarrow>xs. f x) * c"
  by (induction xs) (simp_all add: algebra_simps)

lemma rounded_gross_exposure:
  fixes g :: real
  assumes g: "0 \<le> g" and S: "0 < (\<Sum>s\<leftarrow>ss. \<bar>s\<bar>)"
      and exact: "rounded_sum round_double (map abs ss) = (\<Sum>s\<leftarrow>ss. \<bar>s\<bar>)"
  shows "\<bar>(\<Sum>p\<leftarrow>position_row round_double g ss. \<bar>p\<bar>) - g\<bar> \<le> (2 / 2 ^ 53 + 1 / 2 ^ 106) * g"
proof -
  define S where "S = (\<Sum>s\<leftarrow>ss. \<bar>s\<bar>)"
  define u :: real where "u = 1 / 2 ^ 53"
  define B where "B = round_double (g / S)"
  have Spos: "0 < S" using S by (simp add: S_def)
  have u: "0 \<le> u" by (simp add: u_def)
  have q: "0 \<le> g / S" using g Spos by simp
  have B0: "0 \<le> B"
    unfolding B_def using q by (rule round_double_nonneg)
  have "\<bar>B - g / S\<bar> \<le> \<bar>g / S\<bar> / 2 ^ 53"
    unfolding B_def by (rule round_double_error)
  then have Berr: "\<bar>B - g / S\<bar> \<le> u * (g / S)"
    using q by (simp add: u_def)
  have "\<bar>S * B - g\<bar> = S * \<bar>B - g / S\<bar>"
  proof -
    have "S * B - g = S * (B - g / S)"
      using Spos by (simp add: algebra_simps)
    then show ?thesis
      using Spos by (simp add: abs_mult)
  qed
  also have "\<dots> \<le> S * (u * (g / S))"
    using Berr Spos by (intro mult_left_mono) simp_all
  also have "\<dots> = u * g"
    using Spos by simp
  finally have SB: "\<bar>S * B - g\<bar> \<le> u * g" .
  then have SBle: "S * B \<le> g + u * g"
    by linarith
  have row: "position_row round_double g ss = map (\<lambda>s. round_double (s * B)) ss"
    by (simp add: position_row_def exact B_def S_def)
  have each: "\<bar>\<bar>round_double (s * B)\<bar> - \<bar>s\<bar> * B\<bar> \<le> \<bar>s\<bar> * (B * u)" for s
  proof -
    have "\<bar>s\<bar> * B = \<bar>s * B\<bar>"
      using B0 by (simp add: abs_mult)
    then have "\<bar>\<bar>round_double (s * B)\<bar> - \<bar>s\<bar> * B\<bar> \<le> \<bar>round_double (s * B) - s * B\<bar>"
      by simp
    also have "\<dots> \<le> \<bar>s * B\<bar> / 2 ^ 53"
      by (rule round_double_error)
    also have "\<dots> = \<bar>s\<bar> * (B * u)"
      using B0 by (simp add: abs_mult u_def)
    finally show ?thesis .
  qed
  have "\<bar>(\<Sum>s\<leftarrow>ss. \<bar>round_double (s * B)\<bar>) - (\<Sum>s\<leftarrow>ss. \<bar>s\<bar> * B)\<bar> \<le> (\<Sum>s\<leftarrow>ss. \<bar>s\<bar> * (B * u))"
    by (rule sum_list_abs_diff) (rule each)
  then have "\<bar>(\<Sum>s\<leftarrow>ss. \<bar>round_double (s * B)\<bar>) - S * B\<bar> \<le> S * (B * u)"
    by (simp only: sum_list_mult_right S_def [symmetric])
  also have "S * (B * u) = u * (S * B)"
    by simp
  also have "\<dots> \<le> u * (g + u * g)"
    using SBle u by (rule mult_left_mono)
  finally have rows: "\<bar>(\<Sum>s\<leftarrow>ss. \<bar>round_double (s * B)\<bar>) - S * B\<bar> \<le> u * (g + u * g)" .
  have "(\<Sum>p\<leftarrow>position_row round_double g ss. \<bar>p\<bar>) = (\<Sum>s\<leftarrow>ss. \<bar>round_double (s * B)\<bar>)"
    by (simp add: row comp_def)
  moreover have "u * (g + u * g) + u * g = (2 / 2 ^ 53 + 1 / 2 ^ 106) * g"
    by (simp add: u_def algebra_simps)
  ultimately show ?thesis
    using rows SB by linarith
qed


lemmas rise_defs = rise_demo_def rise_fx_def rise_swaps_def rise_index_def
  rise_signals_def init_def zeros_def column_names_def

lemma rise_compute_signals:
  "compute_signals LON rise_demo = Inr (rise_demo\<lparr>signals_lon := rise_signals\<rparr>)"
  by (simp add: rise_defs signal_eval)

lemma rise_signal_row:
  "map snd (frame_row (signals_of LON (rise_demo\<lparr>signals_lon := rise_signals\<rparr>)) 1) =
     map Num [3, - 1, - 1, - 1]"
  by (simp add: rise_defs signals_of_def frame_row_def at_row_def)

lemma rise_gross_signal: "rounded_sum round_double [3, 1, 1, 1] = 6"
  using rounded_sum_of_ints [of "[3, - 1, - 1, - 1]"] by simp

lemma rise_position_row:
  "position_row round_double 1000000 [3, - 1, - 1, - 1] =
     [500000, - (5726623061333333 / 2 ^ 35), - (5726623061333333 / 2 ^ 35),
      - (5726623061333333 / 2 ^ 35)]"
proof -
  have base_amt: "round_double (500000 / 3) = 5726623061333333 / 34359738368"
    by (simp add: round_double_eval [of 17] round_half_even_def Let_def)
  have long: "round_double (17179869183999999 / 34359738368) = 500000"
    by (simp add: round_double_eval [of 18] round_half_even_def Let_def)
  have short: "round_double (- (5726623061333333 / 34359738368)) =
                 - (5726623061333333 / 34359738368)"
    by (simp add: round_double_eval [of 17] round_half_even_def Let_def)
  show ?thesis
    by (simp add: position_row_def Let_def rise_gross_signal base_amt long short)
qed

lemma rise_rounded_gross_exposure:
  "rounded_sum round_double
     (map abs [500000, - (5726623061333333 / 2 ^ 35), - (5726623061333333 / 2 ^ 35),
               - (5726623061333333 / 2 ^ 35)]) = 8589934591999999 / 2 ^ 33"
proof -
  have 1: "round_double 500000 = 500000"
    using round_double_of_int [of 500000] by simp
  have 2: "round_double (22906492245333333 / 34359738368) = 5726623061333333 / 8589934592"
    by (simp add: round_double_eval [of 19] round_half_even_def Let_def)
  have 3: "round_double (28633115306666665 / 34359738368) = 3579139413333333 / 4294967296"
    by (simp add: round_double_eval [of 19] round_half_even_def Let_def)
  have 4: "round_double (34359738367999997 / 34359738368) = 8589934591999999 / 8589934592"
    by (simp add: round_double_eval [of 19] round_half_even_def Let_def)
  show ?thesis
    by (simp add: rounded_sum_def 1 2 3 4)
qed


lemma rounded_identity [simp]: "rounded (\<lambda>x. x) c = c"
  by (cases c) (simp_all add: rounded_def)

lemma compute_positions_unrounded:
  "compute_positions_rounded (\<lambda>x. x) fix tge b = compute_positions fix tge b"
  by (simp add: compute_positions_rounded_def compute_positions_def sum_axis1_rounded_def
      sum_axis1_def nansum_rounded_def nansum_def)

lemma compute_positions_rounded_succeeds:
  assumes "compute_positions_rounded rnd fix tge b = Inr b1"
  shows "\<exists>b2. compute_positions fix tge b = Inr b2"
  using assms
  by (simp add: compute_positions_rounded_def compute_positions_def Let_def same_shape_def
      frame_map_def nrows_def split: if_splits)

lemma at_row_sum_axis1_rounded:
  "at_row (sum_axis1_rounded rnd f) t =
     (if t < nrows f then nansum_rounded rnd (map snd (frame_row f t)) else NaN)"
proof (cases "t < nrows f")
  case True
  then have "at_row (sum_axis1_rounded rnd f) t = sum_axis1_rounded rnd f ! t"
    by (simp add: at_row_def sum_axis1_rounded_def)
  also have "\<dots> = nansum_rounded rnd (map snd (frame_row f t))"
    using True by (simp add: sum_axis1_rounded_def frame_row_def case_prod_unfold comp_def)
  finally show ?thesis using True by simp
next
  case False
  then show ?thesis by (simp add: at_row_def sum_axis1_rounded_def)
qed

lemma compute_positions_rounded_row:
  assumes "compute_positions_rounded rnd fix tge b = Inr b1" and "t < nrows (signals_of fix b)"
  shows "map snd (frame_row (positions b1) t) =
           map (\<lambda>x. rounded rnd (cmul x (rounded rnd (cdiv tge
                  (nansum_rounded rnd (map cabs (map snd (frame_row (signals_of fix b) t))))))))
             (map snd (frame_row (signals_of fix b) t))"
proof -
  let ?sig = "signals_of fix b"
  let ?n = "nrows ?sig"
  let ?base = "series_map ?n (\<lambda>s. rounded rnd (cdiv tge s))
                 (sum_axis1_rounded rnd (frame_map (series_map ?n cabs) ?sig))"
  let ?nom = "frame_map (\<lambda>xs. series_binop ?n (\<lambda>x y. rounded rnd (cmul x y)) xs ?base) ?sig"
  from assms(1) have shape: "same_shape ?nom (positions b)"
    and b1: "positions b1 = (positions b)\<lparr>columns :=
               zip (column_names (positions b)) (map snd (columns ?nom))\<rparr>"
    by (auto simp: compute_positions_rounded_def Let_def split: if_splits)
  from shape have "length (columns ?nom) = length (columns (positions b))"
    unfolding same_shape_def by (rule conjunct2)
  then have len: "length (column_names (positions b)) = length (map snd (columns ?nom))"
    by (simp add: column_names_def)
  have vals: "map snd (frame_row (positions b1) t) = map snd (frame_row ?nom t)"
    using len by (simp add: row_values b1)
  have abs_row: "map snd (frame_row (frame_map (series_map ?n cabs) ?sig) t) =
                   map cabs (map snd (frame_row ?sig t))"
    using assms(2)
    by (simp add: row_values frame_map_def case_prod_unfold comp_def at_row_series_map)
  have base: "at_row ?base t =
                rounded rnd (cdiv tge (nansum_rounded rnd (map cabs (map snd (frame_row ?sig t)))))"
    using assms(2) by (simp add: at_row_series_map at_row_sum_axis1_rounded abs_row)
  have "map snd (frame_row ?nom t) =
          map (\<lambda>x. rounded rnd (cmul x (at_row ?base t))) (map snd (frame_row ?sig t))"
    using assms(2)
    by (simp add: row_values frame_map_def case_prod_unfold comp_def at_row_series_binop)
  with vals base show ?thesis by simp
qed

lemma nansum_rounded_Num: "nansum_rounded rnd (map Num xs) = Num (rounded_sum rnd xs)"
proof -
  have "foldl (\<lambda>acc x. rounded rnd (nanadd acc x)) (Num a) (map Num xs) =
          Num (foldl (\<lambda>a x. rnd (a + x)) a xs)" for a
    by (induction xs arbitrary: a) (simp_all add: nanadd_def rounded_def)
  from this [of 0] show ?thesis
    by (simp add: nansum_rounded_def rounded_sum_def)
qed

lemma positions_row_rounded:
  assumes "compute_positions_rounded rnd fix (Num g) b = Inr b1"
      and "t < nrows (signals_of fix b)"
      and "map snd (frame_row (signals_of fix b) t) = map Num ss"
      and "rounded_sum rnd (map abs ss) \<noteq> 0"
  shows "map snd (frame_row (positions b1) t) = map Num (position_row rnd g ss)"
proof -
  have "nansum_rounded rnd (map cabs (map Num ss)) = Num (rounded_sum rnd (map abs ss))"
    using nansum_rounded_Num [of rnd "map abs ss"] by (simp add: comp_def)
  then show ?thesis
    using compute_positions_rounded_row [OF assms(1,2)] assms(4)
    by (simp add: assms(3) position_row_def Let_def rounded_def comp_def)
qed

lemma sum_abs_of_int: "(\<Sum>s\<leftarrow>map of_int zs. \<bar>s :: real\<bar>) = of_int (\<Sum>z\<leftarrow>zs. \<bar>z\<bar>)"
  by (induction zs) simp_all


lemma demo_compute_positions_rounded:
  "compute_positions_rounded round_double LON (Num 1000000) (demo\<lparr>signals_lon := demo_signals\<rparr>) =
     Inr demo_sized"
proof -
  have r: "round_double 0 = 0" "round_double 1 = 1" "round_double 2 = 2"
    "round_double 500000 = 500000" "round_double (- 500000) = - 500000"
    using round_double_of_int [of 0] round_double_of_int [of 1] round_double_of_int [of 2]
      round_double_of_int [of 500000] round_double_of_int [of "- 500000"]
    by simp_all
  show ?thesis
    by (simp add: demo_sized_def demo_defs demo_signals_def demo_positions_def
        compute_positions_rounded_def sum_axis1_rounded_def nansum_rounded_def rounded_def r
        signals_of_def frame_map_def nanadd_def series_binop_def series_map_def at_row_def
        nrows_def same_shape_def inf_of_sign_def column_names_def Let_def)
qed

text \<open>
  C2 (as amended). At every timestamp \<open>t\<close> where the composite signals are finite (they
  are integers: sums of the values -1, 0 and 1 of the pairs), at least one of them is not
  zero and the sum of their absolute values is below \<open>2 ^ 53\<close>, the positions that
  \<^verbatim>\<open>compute_positions\<close> stores in float64 for a target gross exposure \<open>g\<close> are
  finite and the sum of their absolute values over all instruments (the sum of the stored
  numbers, itself not rounded) differs from \<open>g\<close> by at most
  \<open>(2 / 2 ^ 53 + 1 / 2 ^ 106) * g\<close>; in exact arithmetic the method succeeds as well and
  the sum is \<open>g\<close>. Here \<open>g\<close> is a float64 number that is zero or lies between
  \<open>1 / 2 ^ 960\<close> and \<open>2 ^ 960\<close>, so that no operation overflows or gives a subnormal
  number.
\<close>

theorem gross_exposure_of_positions:
  assumes "compute_positions_rounded round_double fix (Num g) b = Inr b1"
      and "t < nrows (signals_of fix b)"
      and "map snd (frame_row (signals_of fix b) t) = map Num (map of_int zs)"
      and "\<exists>z\<in>set zs. z \<noteq> 0"
      and "(\<Sum>z\<leftarrow>zs. \<bar>z\<bar>) < 2 ^ 53"
      and "round_double g = g"
      and "g = 0 \<or> 1 / 2 ^ 960 \<le> g \<and> g \<le> 2 ^ 960"
  shows "(\<exists>ps. map snd (frame_row (positions b1) t) = map Num ps \<and>
               \<bar>(\<Sum>p\<leftarrow>ps. \<bar>p\<bar>) - g\<bar> \<le> (2 / 2 ^ 53 + 1 / 2 ^ 106) * g) \<and>
         (\<exists>b2 qs. compute_positions fix (Num g) b = Inr b2 \<and>
               map snd (frame_row (positions b2) t) = map Num qs \<and> (\<Sum>q\<leftarrow>qs. \<bar>q\<bar>) = g)"
proof -
  let ?ss = "map real_of_int zs"
  have g: "0 \<le> g"
  proof -
    have "(0::real) \<le> 1 / 2 ^ 960" by simp
    with assms(7) show ?thesis by linarith
  qed
  have nonzero: "\<exists>s\<in>set ?ss. s \<noteq> 0"
    using assms(4) by simp
  then have S: "0 < (\<Sum>s\<leftarrow>?ss. \<bar>s\<bar>)"
    by (rule sum_abs_pos)
  have exact: "rounded_sum round_double (map abs ?ss) = (\<Sum>s\<leftarrow>?ss. \<bar>s\<bar>)"
    using rounded_sum_of_ints [OF assms(5)] by (simp only: sum_abs_of_int)
  have row: "map snd (frame_row (positions b1) t) = map Num (position_row round_double g ?ss)"
    using assms(1,2,3) by (rule positions_row_rounded) (use exact S in simp)
  have bound: "\<bar>(\<Sum>p\<leftarrow>position_row round_double g ?ss. \<bar>p\<bar>) - g\<bar> \<le> (2 / 2 ^ 53 + 1 / 2 ^ 106) * g"
    using g S exact by (rule rounded_gross_exposure)
  from compute_positions_rounded_succeeds [OF assms(1)]
  obtain b2 where b2: "compute_positions fix (Num g) b = Inr b2" ..
  from gross_exposure_in_exact_arithmetic [OF b2 g assms(2,3) nonzero]
  obtain qs where qs: "map snd (frame_row (positions b2) t) = map Num qs" "(\<Sum>q\<leftarrow>qs. \<bar>q\<bar>) = g"
    by (elim conjE exE)
  show ?thesis
    by (intro conjI exI [of _ "position_row round_double g ?ss"] exI [of _ b2] exI [of _ qs]
        row bound b2 qs)
qed

theorem gross_exposure_of_positions_witness:
  "compute_positions_rounded round_double LON (Num 1000000) (demo\<lparr>signals_lon := demo_signals\<rparr>) =
     Inr demo_sized \<and>
   1 < nrows (signals_of LON (demo\<lparr>signals_lon := demo_signals\<rparr>)) \<and>
   map snd (frame_row (signals_of LON (demo\<lparr>signals_lon := demo_signals\<rparr>)) 1) =
     map Num (map of_int [0, 1, - 1]) \<and>
   (\<exists>z\<in>set [0, 1, - 1 :: int]. z \<noteq> 0) \<and>
   (\<Sum>z\<leftarrow>[0, 1, - 1 :: int]. \<bar>z\<bar>) < 2 ^ 53 \<and>
   round_double 1000000 = 1000000 \<and>
   (1 / 2 ^ 960 \<le> (1000000::real) \<and> (1000000::real) \<le> 2 ^ 960) \<and>
   map snd (frame_row (positions demo_sized) 1) = map Num [0, 500000, - 500000] \<and>
   (\<exists>ps. map snd (frame_row (positions demo_sized) 1) = map Num ps \<and>
         \<bar>(\<Sum>p\<leftarrow>ps. \<bar>p\<bar>) - 1000000\<bar> \<le> (2 / 2 ^ 53 + 1 / 2 ^ 106) * 1000000) \<and>
   (\<exists>b2 qs. compute_positions LON (Num 1000000) (demo\<lparr>signals_lon := demo_signals\<rparr>) = Inr b2 \<and>
         map snd (frame_row (positions b2) 1) = map Num qs \<and> (\<Sum>q\<leftarrow>qs. \<bar>q\<bar>) = 1000000)"
proof -
  have h: "1 < nrows (signals_of LON (demo\<lparr>signals_lon := demo_signals\<rparr>))"
    "map snd (frame_row (signals_of LON (demo\<lparr>signals_lon := demo_signals\<rparr>)) 1) =
       map Num (map of_int [0, 1, - 1])"
    "\<exists>z\<in>set [0, 1, - 1 :: int]. z \<noteq> 0"
    "(\<Sum>z\<leftarrow>[0, 1, - 1 :: int]. \<bar>z\<bar>) < 2 ^ 53"
    by (simp_all add: demo_defs demo_signals_def signals_of_def frame_row_def at_row_def nrows_def)
  have f: "round_double 1000000 = 1000000"
    using round_double_of_int [of 1000000] by simp
  have r: "1 / 2 ^ 960 \<le> (1000000::real) \<and> (1000000::real) \<le> 2 ^ 960"
    by simp
  have v: "map snd (frame_row (positions demo_sized) 1) = map Num [0, 500000, - 500000]"
    by (simp add: demo_sized_def demo_positions_def demo_defs frame_row_def at_row_def)
  note gross_exposure_of_positions [OF demo_compute_positions_rounded h f disjI2 [OF r]]
  then show ?thesis
    by (intro conjI demo_compute_positions_rounded h f r v) (elim conjE, assumption)+
qed

text \<open>
  C2 as stated fails: in the four-instrument example the composite signals of the second
  day are 3, -1, -1 and -1. For a target gross exposure of 1,000,000 the base amount is
  the float64 number nearest to 1,000,000 / 6, which is below it; three times the base
  amount rounds to 500,000, and so the positions stored are 500,000 and three times the
  negated base amount. The sum of their absolute values is \<open>1000000 - 1 / 2 ^ 35\<close>, and
  summed in float64 it is 999,999.9999999999: neither is the target gross exposure.
\<close>

theorem gross_exposure_is_rounded:
  "\<exists>b b1 ps.
      compute_signals LON rise_demo = Inr b \<and>
      map snd (frame_row (signals_of LON b) 1) = map Num [3, - 1, - 1, - 1] \<and>
      compute_positions_rounded round_double LON (Num 1000000) b = Inr b1 \<and>
      map snd (frame_row (positions b1) 1) = map Num ps \<and>
      ps = [500000, - (5726623061333333 / 2 ^ 35), - (5726623061333333 / 2 ^ 35),
            - (5726623061333333 / 2 ^ 35)] \<and>
      (\<Sum>p\<leftarrow>ps. \<bar>p\<bar>) = 1000000 - 1 / 2 ^ 35 \<and>
      (\<Sum>p\<leftarrow>ps. \<bar>p\<bar>) \<noteq> 1000000 \<and>
      rounded_sum round_double (map abs ps) = 8589934591999999 / 2 ^ 33 \<and>
      rounded_sum round_double (map abs ps) \<noteq> 1000000"
proof -
  let ?b = "rise_demo\<lparr>signals_lon := rise_signals\<rparr>"
  let ?ps = "[500000, - (5726623061333333 / 2 ^ 35), - (5726623061333333 / 2 ^ 35),
              - (5726623061333333 / 2 ^ 35) :: real]"
  have "\<exists>b1. compute_positions_rounded round_double LON (Num 1000000) ?b = Inr b1"
    by (simp add: compute_positions_rounded_def Let_def same_shape_def frame_map_def nrows_def
        signals_of_def rise_defs)
  then obtain b1 where b1: "compute_positions_rounded round_double LON (Num 1000000) ?b = Inr b1" ..
  have t: "1 < nrows (signals_of LON ?b)"
    by (simp add: rise_defs signals_of_def nrows_def)
  have "map snd (frame_row (positions b1) 1) =
          map Num (position_row round_double 1000000 [3, - 1, - 1, - 1])"
    using b1 t rise_signal_row by (rule positions_row_rounded) (simp add: rise_gross_signal)
  then have row: "map snd (frame_row (positions b1) 1) = map Num ?ps"
    by (simp only: rise_position_row)
  have sum: "(\<Sum>p\<leftarrow>?ps. \<bar>p\<bar>) = 1000000 - 1 / 2 ^ 35"
    by simp
  have sum_ne: "(\<Sum>p\<leftarrow>?ps. \<bar>p\<bar>) \<noteq> 1000000"
    by simp
  have fsum_ne: "rounded_sum round_double (map abs ?ps) \<noteq> 1000000"
    by (simp only: rise_rounded_gross_exposure) simp
  show ?thesis
    by (intro exI [of _ ?b] exI [of _ b1] exI [of _ ?ps] conjI rise_compute_signals
        rise_signal_row b1 row refl sum sum_ne rise_rounded_gross_exposure fsum_ne)
qed


subsection \<open>C9: years with fewer than two observations\<close>

lemma cdiv_NaN_right [simp]: "cdiv x NaN = NaN"
  by (cases x) simp_all

lemma length_year_group:
  "length (year_group idx xs y) = length (filter (\<lambda>d. year d = y) idx)"
proof -
  have "length (filter (\<lambda>d. year d = y) (map (\<lambda>t. idx ! t) [0..<length idx])) =
          length (filter (\<lambda>t. year (idx ! t) = y) [0..<length idx])"
    unfolding filter_map by (simp add: comp_def)
  then show ?thesis
    by (simp add: year_group_def map_nth)
qed

lemma nanstd_short: "length col < 2 \<Longrightarrow> nanstd col = NaN"
proof -
  assume "length col < 2"
  moreover have "length (filter (\<lambda>x. x \<noteq> NaN) col) \<le> length col"
    by (rule length_filter_le)
  ultimately have "length (filter (\<lambda>x. x \<noteq> NaN) col) < 2"
    by (rule le_less_trans [rotated])
  then show ?thesis
    by (simp add: nanstd_def Let_def)
qed

lemma stats_of_short_year:
  assumes "length (filter (\<lambda>d. year d = y) idx) < 2"
  shows "stat_vol (stats_of_year idx xs y) = NaN" "stat_sharpe (stats_of_year idx xs y) = NaN"
  using assms
  by (simp_all add: stats_of_year_def Let_def compute_vol_def nanstd_short length_year_group)

lemma index_pnl_table [simp]: "index (pnl_table pos fx) = index fx"
  by (simp add: pnl_table_def Let_def set_column_def instrument_pnl_unfold frame_binop_def
      align_columns_def reindex_columns_def returns_table_def frame_map_def)

lemma column_pnl_table_summary:
  "\<exists>tot tp. column (pnl_table pos fx) ''total'' = Some tot \<and>
            column (pnl_table pos fx) ''total_pct'' = Some tp"
  by (simp add: pnl_table_def Let_def column_set_column)

text \<open>
  C9. On the table \<^verbatim>\<open>compute_pnl\<close> stored, \<^verbatim>\<open>compute_stats\<close> raises nothing and gives
  one row per calendar year from the first to the last year of the time axis; in every
  row whose year has fewer than two timestamps, the annual volatility is missing (NaN) and
  so is the Sharpe ratio.
\<close>

theorem stats_of_short_years:
  "\<exists>rows. compute_stats (compute_pnl b) = Inr rows \<and>
      map stat_year rows = years_of (index (fx_lon_fixes b)) \<and>
      (\<forall>r\<in>set rows.
         length (filter (\<lambda>d. year d = stat_year r) (index (fx_lon_fixes b))) < 2 \<longrightarrow>
         stat_vol r = NaN \<and> stat_sharpe r = NaN)"
proof -
  let ?p = "pnl_table (positions b) (fx_lon_fixes b)"
  obtain tot tp where c: "column ?p ''total'' = Some tot" "column ?p ''total_pct'' = Some tp"
    using column_pnl_table_summary by blast
  let ?rows = "map (stats_of_year (index ?p) tp) (years_of (index ?p))"
  have 1: "compute_stats (compute_pnl b) = Inr ?rows"
    by (simp add: compute_stats_def compute_pnl_def c)
  have 2: "map stat_year ?rows = years_of (index (fx_lon_fixes b))"
    by (simp add: comp_def stats_of_year_def Let_def)
  have 3: "\<forall>r\<in>set ?rows.
         length (filter (\<lambda>d. year d = stat_year r) (index (fx_lon_fixes b))) < 2 \<longrightarrow>
         stat_vol r = NaN \<and> stat_sharpe r = NaN"
  proof
    fix r assume "r \<in> set ?rows"
    then obtain y where r: "r = stats_of_year (index (fx_lon_fixes b)) tp y"
      by auto
    then have y: "stat_year r = y"
      by (simp add: stats_of_year_def Let_def)
    show "length (filter (\<lambda>d. year d = stat_year r) (index (fx_lon_fixes b))) < 2 \<longrightarrow>
         stat_vol r = NaN \<and> stat_sharpe r = NaN"
      unfolding y using stats_of_short_year [of y "index (fx_lon_fixes b)" tp] r by simp
  qed
  from 1 2 3 show ?thesis by blast
qed

lemma demo_years: "years_of demo_index = [2023, 2024]"
  by (simp add: years_of_def demo_index_def upto.simps)

theorem stats_of_short_years_witness:
  "\<exists>rows r. compute_stats (compute_pnl demo_sized) = Inr rows \<and>
      map stat_year rows = [2023, 2024] \<and>
      r \<in> set rows \<and> stat_year r = 2024 \<and>
      length (filter (\<lambda>d. year d = 2024) (index (fx_lon_fixes demo_sized))) = 1 \<and>
      stat_vol r = NaN \<and> stat_sharpe r = NaN"
proof -
  from stats_of_short_years [of demo_sized] obtain rows where
    rows: "compute_stats (compute_pnl demo_sized) = Inr rows"
      "map stat_year rows = years_of (index (fx_lon_fixes demo_sized))"
      "\<forall>r\<in>set rows.
         length (filter (\<lambda>d. year d = stat_year r) (index (fx_lon_fixes demo_sized))) < 2 \<longrightarrow>
         stat_vol r = NaN \<and> stat_sharpe r = NaN"
    by blast
  have idx: "index (fx_lon_fixes demo_sized) = demo_index"
    by (simp add: demo_sized_def demo_def init_def demo_fx_def Let_def)
  have years: "map stat_year rows = [2023, 2024]"
    using rows(2) by (simp add: idx demo_years)
  then obtain r0 r where rs: "rows = [r0, r]" "stat_year r = 2024"
    by (auto simp: map_eq_Cons_conv)
  have len: "length (filter (\<lambda>d. year d = 2024) (index (fx_lon_fixes demo_sized))) = 1"
    by (simp add: idx demo_index_def)
  have "stat_vol r = NaN \<and> stat_sharpe r = NaN"
    using rows(3) rs len by simp
  with rows(1) years rs len show ?thesis by auto
qed

subsection \<open>C5: transaction costs\<close>

lemma cell_of_costs:
  assumes "spreads b = Some sp" and "column (positions b) i = Some xs"
      and "t < nrows (positions b)"
  shows "\<exists>tc. compute_transaction_costs b = Inr tc \<and>
           cell_of tc i t =
             cmul (cabs (if t = 0 then NaN else csub (at_row xs t) (at_row xs (t - 1))))
                  (case map_of sp i of Some u \<Rightarrow> u | None \<Rightarrow> NaN)"
proof -
  let ?n = "nrows (positions b)"
  let ?chg = "frame_map (\<lambda>xs. series_map ?n cabs (diff1 ?n xs)) (positions b)"
  let ?tc = "?chg\<lparr>columns := map (\<lambda>(c, xs). (c, series_map ?n
                          (\<lambda>x. cmul x (case map_of sp c of Some u \<Rightarrow> u | None \<Rightarrow> NaN)) xs))
                        (columns ?chg)\<rparr>"
  have 1: "compute_transaction_costs b = Inr ?tc"
    using assms(1) by (simp add: compute_transaction_costs_def Let_def)
  have "column ?tc i = map_option (\<lambda>xs. series_map ?n
                          (\<lambda>x. cmul x (case map_of sp i of Some u \<Rightarrow> u | None \<Rightarrow> NaN)) xs) (column ?chg i)"
    using map_of_map_keyed [of "\<lambda>c xs. series_map ?n
                          (\<lambda>x. cmul x (case map_of sp c of Some u \<Rightarrow> u | None \<Rightarrow> NaN)) xs" "columns ?chg" i]
    by (simp add: column_def)
  then have "cell_of ?tc i t =
             cmul (cabs (if t = 0 then NaN else csub (at_row xs t) (at_row xs (t - 1))))
                  (case map_of sp i of Some u \<Rightarrow> u | None \<Rightarrow> NaN)"
    using assms(2,3)
    by (simp add: cell_of_def column_frame_map at_row_series_map diff1_def at_row_series_binop
        at_row_shift1)
  with 1 show ?thesis by blast
qed

text \<open>
  C5. The formula of the claim is what lines 133 to 137 compute (lemma \<open>cell_of_costs\<close>:
  the absolute change of the position times the unit cost, missing in the first row and for
  an instrument the spread table does not list), but \<^verbatim>\<open>self.spreads\<close> is assigned by no
  method of the class, so on every object \<^verbatim>\<open>__init__\<close> builds the call raises
  \<^verbatim>\<open>AttributeError\<close> instead of returning a table.
\<close>

theorem transaction_costs_raise_without_spreads:
  "compute_transaction_costs (init fx_lon fx_ny swaps_lon swaps_ny w) = Inl AttributeError \<and>
   compute_transaction_costs (compute_pnl demo_sized) = Inl AttributeError"
  by (simp add: compute_transaction_costs_def init_def Let_def compute_pnl_def demo_sized_def demo_def)

subsection \<open>C8: the pipeline of run and the sessions\<close>

lemma demo_compute_signals_ny: "compute_signals NY demo = Inr (demo\<lparr>signals_ny := demo_signals\<rparr>)"
  by (simp add: demo_defs signal_eval)

lemma demo_compute_positions_ny:
  "compute_positions NY (Num 1000000) (demo\<lparr>signals_ny := demo_signals\<rparr>) =
     Inr (demo\<lparr>positions := demo_positions, signals_ny := demo_signals\<rparr>)"
  by (simp add: demo_defs position_eval)

lemma demo_pnl_table_lon:
  "pnl_table demo_positions demo_fx = \<lparr>index = demo_index, columns =
     [(''AUDUSD'', [NaN, NaN, Num 0, Num 0]),
      (''EURUSD'', [NaN, NaN, Num 500000, Num 0]),
      (''GBPUSD'', [NaN, NaN, Num 0, Num (- 250000)]),
      (''total'', [Num 0, Num 0, Num 500000, Num (- 250000)]),
      (''total_pct'', [Num 0, Num 0, Num (1 / 2), Num (- (1 / 4))])]\<rparr>"
  by (simp add: demo_defs pnl_eval)

lemma demo_pnl_table_ny:
  "pnl_table demo_positions demo_fx_ny = \<lparr>index = demo_index, columns =
     [(''AUDUSD'', [NaN, NaN, Num 0, Num 0]),
      (''EURUSD'', [NaN, NaN, Num 0, Num 0]),
      (''GBPUSD'', [NaN, NaN, Num 0, Num 0]),
      (''total'', [Num 0, Num 0, Num 0, Num 0]),
      (''total_pct'', [Num 0, Num 0, Num 0, Num 0])]\<rparr>"
  by (simp add: demo_defs pnl_eval)

lemma compute_signals_LON_frame:
  "compute_signals LON (b\<lparr>fx_ny_fixes := y, swaps_ny_fixes := z, signals_ny := s\<rparr>) =
     (case compute_signals LON b of
        Inl e \<Rightarrow> Inl e
      | Inr b' \<Rightarrow> Inr (b'\<lparr>fx_ny_fixes := y, swaps_ny_fixes := z, signals_ny := s\<rparr>))"
  by (simp add: compute_signals_def swaps_of_def signals_of_def set_signals_def Let_def
      split: sum.splits)

lemma compute_signals_NY_frame:
  "compute_signals NY (b\<lparr>swaps_lon_fixes := z, signals_lon := s\<rparr>) =
     (case compute_signals NY b of
        Inl e \<Rightarrow> Inl e
      | Inr b' \<Rightarrow> Inr (b'\<lparr>swaps_lon_fixes := z, signals_lon := s\<rparr>))"
  by (simp add: compute_signals_def swaps_of_def signals_of_def set_signals_def Let_def
      split: sum.splits)

lemma compute_positions_LON_frame:
  "compute_positions LON g (b\<lparr>fx_ny_fixes := y, swaps_ny_fixes := z, signals_ny := s\<rparr>) =
     (case compute_positions LON g b of
        Inl e \<Rightarrow> Inl e
      | Inr b' \<Rightarrow> Inr (b'\<lparr>fx_ny_fixes := y, swaps_ny_fixes := z, signals_ny := s\<rparr>))"
  by (simp add: compute_positions_def signals_of_def Let_def)

lemma compute_positions_NY_frame:
  "compute_positions NY g (b\<lparr>signals_lon := s\<rparr>) =
     (case compute_positions NY g b of
        Inl e \<Rightarrow> Inl e
      | Inr b' \<Rightarrow> Inr (b'\<lparr>signals_lon := s\<rparr>))"
  by (simp add: compute_positions_def signals_of_def Let_def)

lemma compute_pnl_frame:
  "compute_pnl (b\<lparr>fx_ny_fixes := y, swaps_ny_fixes := z, signals_ny := s\<rparr>) =
     (compute_pnl b)\<lparr>fx_ny_fixes := y, swaps_ny_fixes := z, signals_ny := s\<rparr>"
  by (simp add: compute_pnl_def)

lemma run_frame:
  "run (b\<lparr>fx_ny_fixes := y, swaps_ny_fixes := z, signals_ny := s\<rparr>) =
     (case run b of
        Inl e \<Rightarrow> Inl e
      | Inr b' \<Rightarrow> Inr (b'\<lparr>fx_ny_fixes := y, swaps_ny_fixes := z, signals_ny := s\<rparr>))"
proof (cases "compute_signals LON b")
  case (Inl e)
  then show ?thesis
    by (simp add: run_def compute_signals_LON_frame)
next
  case (Inr b1)
  then show ?thesis
    by (cases "compute_positions LON (Num 1000000) b1")
       (simp_all add: run_def compute_signals_LON_frame compute_positions_LON_frame compute_pnl_frame)
qed

text \<open>
  C8 (as amended). \<^verbatim>\<open>run()\<close> is \<^verbatim>\<open>compute_signals(LON)\<close>, then
  \<^verbatim>\<open>compute_positions(LON)\<close> with the default exposure, then \<^verbatim>\<open>compute_pnl()\<close>; it
  reads none of the NY tables and leaves them as they were. \<^verbatim>\<open>compute_signals\<close> and
  \<^verbatim>\<open>compute_positions\<close> take the session: called for NY they read and write the NY
  tables only. \<^verbatim>\<open>compute_pnl\<close> takes no session: its table is always computed from the
  LON spot fixes, and the NY spot fixes have no effect on it.
\<close>

theorem run_is_the_lon_pipeline:
  "run b =
     (case compute_signals LON b of
        Inl e \<Rightarrow> Inl e
      | Inr b1 \<Rightarrow>
          (case compute_positions LON (Num 1000000) b1 of
             Inl e \<Rightarrow> Inl e
           | Inr b2 \<Rightarrow> Inr (compute_pnl b2))) \<and>
   run (b\<lparr>fx_ny_fixes := y, swaps_ny_fixes := z, signals_ny := s\<rparr>) =
     (case run b of
        Inl e \<Rightarrow> Inl e
      | Inr b' \<Rightarrow> Inr (b'\<lparr>fx_ny_fixes := y, swaps_ny_fixes := z, signals_ny := s\<rparr>)) \<and>
   compute_signals NY (b\<lparr>swaps_lon_fixes := z, signals_lon := s\<rparr>) =
     (case compute_signals NY b of
        Inl e \<Rightarrow> Inl e
      | Inr b' \<Rightarrow> Inr (b'\<lparr>swaps_lon_fixes := z, signals_lon := s\<rparr>)) \<and>
   compute_positions NY g (b\<lparr>signals_lon := s\<rparr>) =
     (case compute_positions NY g b of
        Inl e \<Rightarrow> Inl e
      | Inr b' \<Rightarrow> Inr (b'\<lparr>signals_lon := s\<rparr>)) \<and>
   pnl (compute_pnl b) = Some (pnl_table (positions b) (fx_lon_fixes b)) \<and>
   compute_pnl (b\<lparr>fx_ny_fixes := y\<rparr>) = (compute_pnl b)\<lparr>fx_ny_fixes := y\<rparr>"
  by (intro conjI run_frame compute_signals_NY_frame compute_positions_NY_frame)
     (simp_all add: run_def compute_pnl_def)

text \<open>
  C8 as stated fails: after the signals and positions of the NY session, \<^verbatim>\<open>compute_pnl\<close>
  on the example still stores the P&L against the LON fixes (500000 for EUR on the third
  day), not the P&L against the NY fixes (0), whatever the NY fixes are.
\<close>

theorem pnl_never_uses_ny_fixes:
  "\<exists>b1 b2 p. compute_signals NY demo = Inr b1 \<and>
      compute_positions NY (Num 1000000) b1 = Inr b2 \<and>
      pnl (compute_pnl b2) = Some p \<and>
      p = pnl_table (positions b2) (fx_lon_fixes b2) \<and>
      p \<noteq> pnl_table (positions b2) (fx_ny_fixes b2) \<and>
      cell_of p ''EURUSD'' 2 = Num 500000 \<and>
      cell_of (pnl_table (positions b2) (fx_ny_fixes b2)) ''EURUSD'' 2 = Num 0 \<and>
      (\<forall>y. pnl (compute_pnl (b2\<lparr>fx_ny_fixes := y\<rparr>)) = Some p)"
  by (simp add: demo_compute_signals_ny demo_compute_positions_ny compute_pnl_def)
     (simp add: demo_def init_def Let_def demo_pnl_table_lon demo_pnl_table_ny
        cell_of_def column_def at_row_def)

subsection \<open>C6: subsignals where the moving average is missing or zero\<close>












subsection \<open>C7: two instruments\<close>

lemmas pair_defs = pair_demo_def pair_fx_def pair_swaps_def pair_index_def pair_signals_def
  init_def zeros_def column_names_def

lemma pair_subsignals:
  "subsignal_columns (ma_window pair_demo) (swaps_lon_fixes pair_demo)
     (combinations2 (countries pair_demo)) = Inr [(''AUDCAD'', [NaN, Num 1])]"
  by (simp add: pair_defs signal_eval)

lemma pair_compute_signals:
  "compute_signals LON pair_demo = Inr (pair_demo\<lparr>signals_lon := pair_signals\<rparr>)"
  by (simp add: pair_defs signal_eval)

lemma median_single: "median_skipna [Num a] = Num a"
  by (simp add: median_skipna_def sort_cells_def lerp_def csub_def Let_def)

lemma discretize_own_abs:
  "discretize (median_skipna [cabs (Num a)]) (Num a) = (if \<bar>a\<bar> = 1 then Num a else Num 0)"
  by (auto simp: median_single discretize_def cgt_def cge_def cne_def Let_def)

text \<open>
  C7. With two instruments there is one pair, and the threshold of a row is the absolute
  value of the pair's own subsignal, so \<^verbatim>\<open>abs(sub) > threshold\<close> never holds. But line
  115 zeroes a cell only where its absolute value differs from 1, so a raw subsignal of
  exactly 1 or -1 that is not above the threshold is kept as a signal: in the example the
  composite signals of the second day are 1 and -1, not 0.
\<close>

theorem two_instruments_signal_of_unit_subsignal:
  "discretize (median_skipna [cabs (Num a)]) (Num a) = (if \<bar>a\<bar> = 1 then Num a else Num 0) \<and>
   (\<exists>b1. subsignal_columns (ma_window pair_demo) (swaps_lon_fixes pair_demo)
            (combinations2 (countries pair_demo)) = Inr [(''AUDCAD'', [NaN, Num 1])] \<and>
         at_row (threshold_column 2 [(''AUDCAD'', [NaN, Num 1])]) 1 = Num 1 \<and>
         \<not> cgt (cabs (Num 1)) (at_row (threshold_column 2 [(''AUDCAD'', [NaN, Num 1])]) 1) \<and>
         compute_signals LON pair_demo = Inr b1 \<and>
         cell_of (signals_lon b1) ''AUDUSD'' 1 = Num 1 \<and>
         cell_of (signals_lon b1) ''CADUSD'' 1 = Num (- 1))"
proof -
  have t: "at_row (threshold_column 2 [(''AUDCAD'', [NaN, Num 1])]) 1 = Num 1"
    by (simp add: threshold_column_def at_row_def median_single)
  have c: "cell_of (signals_lon (pair_demo\<lparr>signals_lon := pair_signals\<rparr>)) ''AUDUSD'' 1 = Num 1"
    "cell_of (signals_lon (pair_demo\<lparr>signals_lon := pair_signals\<rparr>)) ''CADUSD'' 1 = Num (- 1)"
    by (simp_all add: pair_signals_def cell_of_def column_def at_row_def)
  have g: "\<not> cgt (cabs (Num 1)) (at_row (threshold_column 2 [(''AUDCAD'', [NaN, Num 1])]) 1)"
    unfolding t by (simp add: cgt_def)
  show ?thesis
    by (intro conjI exI [of _ "pair_demo\<lparr>signals_lon := pair_signals\<rparr>"]
        discretize_own_abs pair_subsignals t g pair_compute_signals c)
qed

subsection \<open>C10: calling compute_signals twice\<close>

lemma cadd_commute: "cadd x y = cadd y x"
  by (cases x; cases y; simp)

lemma cadd_assoc: "cadd (cadd x y) z = cadd x (cadd y z)"
  by (cases x; cases y; cases z; simp)

lemma cadd_zero_left [simp]: "cadd (Num 0) x = x"
  by (cases x) simp_all

lemma cadd_self: "cadd x x = cmul (Num 2) x"
  by (cases x) (simp_all add: inf_of_sign_def)

lemma cadd_swap_right: "cadd (cadd x y) z = cadd (cadd x z) y"
  by (simp add: cadd_assoc cadd_commute [of y z])

lemma series_binop_nest:
  "series_binop n g (series_binop n h a b) c =
     map (\<lambda>t. g (h (at_row a t) (at_row b t)) (at_row c t)) [0..<n]"
  by (simp add: series_binop_def at_row_series_binop [unfolded series_binop_def])

lemma series_add_add_swap:
  "series_binop n cadd (series_binop n cadd s v) d =
   series_binop n cadd (series_binop n cadd s d) v"
  by (simp add: series_binop_nest cadd_swap_right)

lemma series_add_sub_swap:
  "series_binop n csub (series_binop n cadd s v) d =
   series_binop n cadd (series_binop n csub s d) v"
  by (simp add: series_binop_nest csub_def cadd_swap_right)

lemma map_of_zip_keyed:
  assumes "map fst al = map fst bl"
  shows "map_of (map (\<lambda>((c, xs), (c', ys)). (c, F xs ys)) (zip al bl)) k =
           (case map_of al k of
              None \<Rightarrow> None
            | Some xs \<Rightarrow> (case map_of bl k of None \<Rightarrow> None | Some ys \<Rightarrow> Some (F xs ys)))"
  using assms
proof (induction al arbitrary: bl)
  case Nil
  then show ?case by simp
next
  case (Cons a al)
  then obtain b bl' where bl: "bl = b # bl'" "fst a = fst b" "map fst al = map fst bl'"
    by (cases bl) auto
  with Cons.IH [of bl'] show ?case
    by (cases a; cases b) (auto split: option.splits)
qed

lemma update_zip_keyed:
  assumes "map fst al = map fst bl" and "map_of bl k = Some ys"
  shows "AList.update k (F v ys) (map (\<lambda>((c, xs), (c', ys)). (c, F xs ys)) (zip al bl)) =
           map (\<lambda>((c, xs), (c', ys)). (c, F xs ys)) (zip (AList.update k v al) bl)"
  using assms
proof (induction al arbitrary: bl)
  case Nil
  then show ?case by simp
next
  case (Cons a al)
  then obtain b bl' where bl: "bl = b # bl'" "fst a = fst b" "map fst al = map fst bl'"
    by (cases bl) auto
  show ?case
  proof (cases "fst a = k")
    case True
    with bl Cons.prems(2) show ?thesis
      by (cases a; cases b) auto
  next
    case False
    with bl Cons.prems(2) have "map_of bl' k = Some ys"
      by (cases b) auto
    from Cons.IH [OF bl(3) this] False bl show ?thesis
      by (cases a; cases b) auto
  qed
qed

lemma names_update_present:
  "map_of al k = Some v \<Longrightarrow> map fst (AList.update k w al) = map fst al"
  by (auto simp: update_keys dest: map_of_SomeD intro: rev_image_eqI)

lemma column_names_set_column_present:
  "column f k = Some v \<Longrightarrow> column_names (set_column k w f) = column_names f"
  by (simp add: column_def column_names_def set_column_def names_update_present)

lemma index_set_column [simp]: "index (set_column k w f) = index f"
  by (simp add: set_column_def)

lemma nrows_frame_add [simp]: "nrows (frame_add f g) = nrows f"
  by (simp add: frame_add_def nrows_def)

lemma column_frame_add:
  assumes "column_names f = column_names g"
  shows "column (frame_add f g) k =
           (case column f k of
              None \<Rightarrow> None
            | Some xs \<Rightarrow> (case column g k of None \<Rightarrow> None
                          | Some ys \<Rightarrow> Some (series_binop (nrows f) cadd xs ys)))"
  unfolding column_def
  using map_of_zip_keyed [of "columns f" "columns g" "series_binop (nrows f) cadd" k] assms
  by (simp add: frame_add_def column_names_def)

lemma set_column_frame_add:
  assumes "column_names f = column_names g" and "column g k = Some ys"
  shows "set_column k (series_binop (nrows f) cadd v ys) (frame_add f g) =
           frame_add (set_column k v f) g"
  using update_zip_keyed [of "columns f" "columns g" k ys "series_binop (nrows f) cadd" v] assms
  by (simp add: column_def frame_add_def column_names_def set_column_def nrows_def)

lemma column_same_names:
  assumes "column_names f = column_names g" and "column f k = Some xs"
  shows "\<exists>ys. column g k = Some ys"
proof -
  from assms(2) have "k \<in> set (column_names f)" by (rule column_in_names)
  with assms(1) have "column g k \<noteq> None" by (simp add: column_None_iff)
  then show ?thesis by auto
qed

lemma accumulate_frame_add:
  assumes "accumulate n thr subs S = Inr S'" and "column_names S = column_names V"
  shows "accumulate n thr subs (frame_add S V) = Inr (frame_add S' V) \<and>
         column_names S' = column_names S \<and> index S' = index S"
  using assms
proof (induction subs arbitrary: S)
  case Nil
  then show ?case by simp
next
  case (Cons p rest)
  obtain col xs where p: "p = (col, xs)" by (cases p)
  define k1 where "k1 = take 3 col @ ''USD''"
  define k2 where "k2 = drop 3 col @ ''USD''"
  define d where "d = discretize_column n thr xs"
  from Cons.prems(1) obtain s1 where s1: "column S k1 = Some s1"
    by (auto simp: p k1_def Let_def split: option.splits)
  define S1 where "S1 = set_column k1 (series_binop (nrows S) cadd s1 d) S"
  from Cons.prems(1) s1 obtain s2 where s2: "column S1 k2 = Some s2"
    by (auto simp: p k1_def k2_def d_def S1_def Let_def split: option.splits)
  define S2 where "S2 = set_column k2 (series_binop (nrows S) csub s2 d) S1"
  from Cons.prems(1) s1 s2 have rest: "accumulate n thr rest S2 = Inr S'"
    by (simp add: p k1_def k2_def d_def S1_def S2_def Let_def)
  have n1: "column_names S1 = column_names S"
    unfolding S1_def using s1 by (rule column_names_set_column_present)
  have n2: "column_names S2 = column_names S1"
    unfolding S2_def using s2 by (rule column_names_set_column_present)
  have r1: "nrows S1 = nrows S" by (simp add: S1_def)
  have i12: "index S2 = index S" by (simp add: S1_def S2_def)
  from Cons.prems(2) s1 obtain v1 where v1: "column V k1 = Some v1"
    using column_same_names by blast
  from Cons.prems(2) n1 s2 obtain v2 where v2: "column V k2 = Some v2"
    using column_same_names [of S1 V k2 s2] by auto
  have a1: "column (frame_add S V) k1 = Some (series_binop (nrows S) cadd s1 v1)"
    using Cons.prems(2) s1 v1 by (simp add: column_frame_add)
  have e1: "set_column k1 (series_binop (nrows S) cadd (series_binop (nrows S) cadd s1 v1) d)
              (frame_add S V) = frame_add S1 V"
    unfolding series_add_add_swap [of "nrows S" s1 v1 d] S1_def
    using Cons.prems(2) v1 by (rule set_column_frame_add)
  have a2: "column (frame_add S1 V) k2 = Some (series_binop (nrows S) cadd s2 v2)"
    using Cons.prems(2) n1 s2 v2 r1 by (simp add: column_frame_add)
  have e2: "set_column k2 (series_binop (nrows S) csub (series_binop (nrows S) cadd s2 v2) d)
              (frame_add S1 V) = frame_add S2 V"
  proof -
    have "column_names S1 = column_names V"
      using Cons.prems(2) n1 by simp
    then have "set_column k2 (series_binop (nrows S1) cadd (series_binop (nrows S1) csub s2 d) v2)
                 (frame_add S1 V) =
               frame_add (set_column k2 (series_binop (nrows S1) csub s2 d) S1) V"
      using v2 by (rule set_column_frame_add)
    then show ?thesis
      by (simp add: series_add_sub_swap S2_def r1)
  qed
  from Cons.IH [OF rest] Cons.prems(2) n1 n2
  have ih: "accumulate n thr rest (frame_add S2 V) = Inr (frame_add S' V)"
    "column_names S' = column_names S2" "index S' = index S2"
    by simp_all
  have "accumulate n thr (p # rest) (frame_add S V) = Inr (frame_add S' V)"
    using a1 e1 a2 e2 ih(1)
    by (simp add: p Let_def k1_def [symmetric] k2_def [symmetric] d_def [symmetric])
  with ih(2,3) n1 n2 i12 show ?case by simp
qed

lemma length_series_binop [simp]: "length (series_binop n g xs ys) = n"
  by (simp add: series_binop_def)

lemma full_columns_set_column:
  "full_columns f \<Longrightarrow> length xs = nrows f \<Longrightarrow> full_columns (set_column k xs f)"
proof -
  assume "full_columns f" and l: "length xs = nrows f"
  then have a: "list_all (\<lambda>(c, ys). length ys = nrows f) (columns f)"
    by (simp add: full_columns_def)
  have "list_all (\<lambda>(c, ys). length ys = m) al \<Longrightarrow> length xs = m \<Longrightarrow>
          list_all (\<lambda>(c, ys). length ys = m) (AList.update k xs al)" for m al
    by (induction al) auto
  from this [OF a l] show ?thesis
    by (simp add: full_columns_def set_column_def nrows_def)
qed

lemma accumulate_full_columns:
  "accumulate n thr subs S = Inr S' \<Longrightarrow> full_columns S \<Longrightarrow> full_columns S'"
proof (induction subs arbitrary: S)
  case Nil
  then show ?case by simp
next
  case (Cons p rest)
  obtain col xs where p: "p = (col, xs)" by (cases p)
  from Cons.prems(1) obtain s1 s2 where
    rest: "accumulate n thr rest
             (set_column (drop 3 col @ ''USD'')
                (series_binop (nrows S) csub s2 (discretize_column n thr xs))
                (set_column (take 3 col @ ''USD'')
                   (series_binop (nrows S) cadd s1 (discretize_column n thr xs)) S)) = Inr S'"
    by (auto simp: p Let_def split: option.splits)
  show ?case
    by (rule Cons.IH [OF rest]) (simp add: full_columns_set_column Cons.prems(2))
qed

lemma full_columns_zeros: "full_columns (zeros idx cs)"
  by (simp add: full_columns_def zeros_def nrows_def list_all_iff)

lemma series_add_zeros:
  "length xs = n \<Longrightarrow> series_binop n cadd (replicate n (Num 0)) xs = xs"
  by (auto simp: series_binop_def at_row_def intro: nth_equalityI)

lemma series_add_self:
  "length xs = n \<Longrightarrow> series_binop n cadd xs xs = map (cmul (Num 2)) xs"
  by (auto simp: series_binop_def at_row_def cadd_self intro: nth_equalityI)

lemma frame_add_zeros:
  assumes "column_names f = cs" and "index f = idx" and "full_columns f"
  shows "frame_add (zeros idx cs) f = f"
proof -
  have "list_all (\<lambda>(c, xs). length xs = m) al \<Longrightarrow>
          map (\<lambda>((c, xs), (c', ys)). (c, series_binop m cadd xs ys))
            (zip (map (\<lambda>c. (c, replicate m (Num 0))) (map fst al)) al) = al" for m al
    by (induction al) (auto simp: series_add_zeros)
  from this [of "length idx" "columns f"] assms show ?thesis
    by (cases f) (auto simp: frame_add_def zeros_def nrows_def full_columns_def column_names_def)
qed

lemma frame_add_self:
  assumes "full_columns f"
  shows "frame_add f f = frame_map (map (cmul (Num 2))) f"
proof -
  have "list_all (\<lambda>(c, xs). length xs = m) al \<Longrightarrow>
          map (\<lambda>((c, xs), (c', ys)). (c, series_binop m cadd xs ys)) (zip al al) =
          map (\<lambda>(c, xs). (c, map (cmul (Num 2)) xs)) al" for m al
    by (induction al) (auto simp: series_add_self)
  from this [of "nrows f" "columns f"] assms show ?thesis
    by (simp add: frame_add_def frame_map_def full_columns_def)
qed

lemma accumulate_twice:
  assumes "accumulate n thr subs (zeros idx cs) = Inr S"
  shows "accumulate n thr subs S = Inr (frame_map (map (cmul (Num 2))) S)"
proof -
  have names: "column_names (zeros idx cs) = cs"
    by (simp add: zeros_def column_names_def comp_def)
  have idx: "index (zeros idx cs) = idx"
    by (simp add: zeros_def)
  from accumulate_frame_add [OF assms, of "zeros idx cs"]
  have S: "column_names S = cs" "index S = idx"
    by (simp_all add: names idx)
  have full: "full_columns S"
    using assms full_columns_zeros by (rule accumulate_full_columns)
  from accumulate_frame_add [OF assms, of S] S names
  have "accumulate n thr subs (frame_add (zeros idx cs) S) = Inr (frame_add S S)"
    by simp
  then show ?thesis
    by (simp add: frame_add_zeros [OF S full] frame_add_self [OF full])
qed

lemma signals_of_set_signals [simp]:
  "signals_of fix (set_signals fix s b) = s"
  "swaps_of fix (set_signals fix s b) = swaps_of fix b"
  "ma_window (set_signals fix s b) = ma_window b"
  "countries (set_signals fix s b) = countries b"
  by (simp_all add: signals_of_def swaps_of_def set_signals_def)

lemma signals_of_init:
  "signals_of fix (init fx_lon fx_ny swaps_lon swaps_ny w) =
     zeros (index fx_lon) (column_names fx_lon)"
  by (simp add: signals_of_def init_def Let_def)

text \<open>
  C10. On a freshly constructed backtest, whenever \<^verbatim>\<open>compute_signals\<close> returns for a
  session, a second call for the same session returns too and leaves every cell of the
  session's signal table equal to twice the cell the first call left: the second call
  adds the same pairwise values to a table that was not reset.
\<close>

theorem compute_signals_twice_doubles:
  assumes "compute_signals fix (init fx_lon fx_ny swaps_lon swaps_ny w) = Inr b1"
  shows "\<exists>b2. compute_signals fix b1 = Inr b2 \<and>
           signals_of fix b2 = frame_map (map (cmul (Num 2))) (signals_of fix b1)"
proof -
  let ?b0 = "init fx_lon fx_ny swaps_lon swaps_ny w"
  let ?n = "nrows (swaps_of fix ?b0)"
  from assms obtain subsignals where
    subs: "subsignal_columns (ma_window ?b0) (swaps_of fix ?b0) (combinations2 (countries ?b0)) =
             Inr subsignals"
    by (auto simp: compute_signals_def Let_def split: sum.splits)
  let ?thr = "threshold_column ?n subsignals"
  from assms subs obtain S where
    acc: "accumulate ?n ?thr subsignals (signals_of fix ?b0) = Inr S"
    and b1: "b1 = set_signals fix S ?b0"
    by (auto simp: compute_signals_def Let_def split: sum.splits)
  from acc have "accumulate ?n ?thr subsignals S = Inr (frame_map (map (cmul (Num 2))) S)"
    unfolding signals_of_init by (rule accumulate_twice)
  then have "compute_signals fix b1 =
               Inr (set_signals fix (frame_map (map (cmul (Num 2))) S) b1)"
    using subs by (simp add: compute_signals_def Let_def b1)
  then show ?thesis
    by (simp add: b1)
qed

theorem compute_signals_twice_doubles_witness:
  "compute_signals LON (init demo_fx demo_fx_ny demo_swaps demo_swaps 2) =
     Inr (demo\<lparr>signals_lon := demo_signals\<rparr>) \<and>
   (\<exists>b2. compute_signals LON (demo\<lparr>signals_lon := demo_signals\<rparr>) = Inr b2 \<and>
         columns (signals_lon b2) =
           [(''AUDUSD'', [Num 0, Num 0, Num 0, Num 0]),
            (''EURUSD'', [Num 0, Num 2, Num (- 2), Num 0]),
            (''GBPUSD'', [Num 0, Num (- 2), Num 2, Num 0])] \<and>
         signals_lon b2 \<noteq> demo_signals)"
proof -
  have first: "compute_signals LON (init demo_fx demo_fx_ny demo_swaps demo_swaps 2) =
     Inr (demo\<lparr>signals_lon := demo_signals\<rparr>)"
    using demo_compute_signals by (simp add: demo_def)
  from compute_signals_twice_doubles [OF first] obtain b2 where
    b2: "compute_signals LON (demo\<lparr>signals_lon := demo_signals\<rparr>) = Inr b2"
      "signals_of LON b2 = frame_map (map (cmul (Num 2))) (signals_of LON (demo\<lparr>signals_lon := demo_signals\<rparr>))"
    by blast
  from b2(2) have c: "signals_lon b2 = frame_map (map (cmul (Num 2))) demo_signals"
    by (simp add: signals_of_def)
  have v: "columns (signals_lon b2) =
           [(''AUDUSD'', [Num 0, Num 0, Num 0, Num 0]),
            (''EURUSD'', [Num 0, Num 2, Num (- 2), Num 0]),
            (''GBPUSD'', [Num 0, Num (- 2), Num 2, Num 0])]"
    unfolding c by (simp add: frame_map_def demo_signals_def)
  then have "signals_lon b2 \<noteq> demo_signals"
    by (auto simp: demo_signals_def)
  with first b2(1) v show ?thesis by blast
qed

end
